theory Spec2Isabelle
  imports Main
begin

section \<open>JavaScript values seen by the scene state evaluator\<close>

text \<open>
  A thrown value, as the handlers of \<^verbatim>\<open>evaluateAtLine\<close> read it: \<^verbatim>\<open>e.message\<close> when it is
  truthy, \<^verbatim>\<open>String(e)\<close> otherwise.
\<close>

datatype exn = Exn (message: "string option") (as_string: string)

text \<open>
  An optional string is \<^verbatim>\<open>null\<close>/\<^verbatim>\<open>undefined\<close> (\<open>None\<close>) or a string; the empty string
  is falsy as well.
\<close>

definition truthy :: "string option \<Rightarrow> bool" where
  "truthy v = (case v of None \<Rightarrow> False | Some t \<Rightarrow> t \<noteq> [])"

text \<open>\<^verbatim>\<open>a || b\<close> on optional strings.\<close>

definition or_else :: "string option \<Rightarrow> string option \<Rightarrow> string option" where
  "or_else a b = (if truthy a then a else b)"

record debug_metadata =
  startLineNumber :: int
  endLineNumber :: int
  fileName :: "string option"
  sourceName :: "string option"

section \<open>Position matcher\<close>

text \<open>
  \<^verbatim>\<open>s.replace(/^.*[/\\]/, "")\<close>: the pattern is anchored at the start of the string, has
  no flag, and its dot matches every character except a line terminator. The greedy
  \<^verbatim>\<open>.*\<close> therefore ranges over the first line only, and the match ends at the last
  slash or backslash of that line; without one the string is returned unchanged.
  Characters are 8-bit here, so the line terminators are LF and CR.
\<close>

definition line_terminator :: "char \<Rightarrow> bool" where
  "line_terminator c = (c = CHR 0x0A \<or> c = CHR 0x0D)"

definition path_separator :: "char \<Rightarrow> bool" where
  "path_separator c = (c = CHR ''/'' \<or> c = CHR 0x5C)"

definition strip_dir :: "string \<Rightarrow> string" where
  "strip_dir p =
     (let first_line = takeWhile (\<lambda>c. \<not> line_terminator c) p in
      if \<exists>c \<in> set first_line. path_separator c
      then drop (length first_line
                 - length (takeWhile (\<lambda>c. \<not> path_separator c) (rev first_line))) p
      else p)"

definition fileMatchesCursor :: "debug_metadata option \<Rightarrow> string option \<Rightarrow> bool" where
  "fileMatchesCursor dm cursorFilePath =
     (case dm of
        None \<Rightarrow> False
      | Some d \<Rightarrow>
          (let name = or_else (fileName d) (sourceName d) in
           if \<not> truthy name then True
           else if \<not> truthy cursorFilePath then True
           else if name = cursorFilePath then True
           else strip_dir (the name) = strip_dir (the cursorFilePath)))"

text \<open>
  The final path component in the words of the specification: what follows the last
  slash or backslash of the whole path.
\<close>

definition final_component :: "string \<Rightarrow> string" where
  "final_component p = rev (takeWhile (\<lambda>c. \<not> path_separator c) (rev p))"

section \<open>The script engine, as the evaluator uses it\<close>

text \<open>
  The compiled story is an object of the external engine; the evaluator only calls it.
  Its whole mutable content is a value of type \<open>'s\<close>, and the engine is the record of
  the members the source reads. A call that throws leaves the story in some state, which
  the caller still holds afterwards: \<open>Inl (e, s')\<close> is the exception \<open>e\<close> thrown with the
  story left in \<open>s'\<close>. The getters \<^verbatim>\<open>canContinue\<close>, \<^verbatim>\<open>currentChoices\<close> and
  \<^verbatim>\<open>currentDebugMetadata\<close> are reads without effect, as are serialising the state and
  reading a variable. Every call returns or throws: a call of the engine that never
  comes back is not represented. The last member, \<open>type_error\<close>, is the runtime's rather
  than the engine's: the \<^verbatim>\<open>TypeError\<close> raised, with the story in the given state, when the
  named expression reads a member of null or undefined or calls what is not a function.
  Its text is the runtime's own.
\<close>

text \<open>
  \<^verbatim>\<open>story.state\<close>, as far as the source looks at it: each of \<^verbatim>\<open>ToJson\<close> and
  \<^verbatim>\<open>toJson\<close> is absent (\<open>None\<close>) or a method, given by what calling it yields.
\<close>

datatype state_object =
  State_object (ToJson_method: "(exn + string) option") (toJson_method: "(exn + string) option")

datatype js_value =
  JSNull | JSUndefined | JSNumber int | JSString string | JSBoolean bool | JSObject string

text \<open>
  What \<^verbatim>\<open>GetVariableWithName\<close> returns, split the way \<^verbatim>\<open>coerceValue\<close> looks at it:
  null or undefined; an object with a \<^verbatim>\<open>value\<close> property; an object without one whose
  \<^verbatim>\<open>valueOf\<close> is a function (given by what calling it yields); anything else.
\<close>

datatype ink_object =
  Nullish
| With_value js_value
| With_valueOf "exn + js_value"
| Other js_value

text \<open>
  \<^verbatim>\<open>story.variablesState\<close>: null or undefined, or an object whose
  \<^verbatim>\<open>GetVariableWithName\<close> is a function (\<open>Some\<close>) or is not (\<open>None\<close>).
\<close>

datatype variables_state =
  No_variables_state
| Variables_state "(string \<Rightarrow> exn + ink_object) option"

type_synonym choice = string

record 's engine =
  canContinue :: "'s \<Rightarrow> bool"
  Continue :: "'s \<Rightarrow> (exn \<times> 's) + 's"
  currentChoices :: "'s \<Rightarrow> choice list option"
  ChooseChoiceIndex :: "'s \<Rightarrow> nat \<Rightarrow> (exn \<times> 's) + 's"
  currentDebugMetadata :: "'s \<Rightarrow> debug_metadata option"
  state :: "'s \<Rightarrow> exn + state_object option"
  LoadJson :: "'s \<Rightarrow> string \<Rightarrow> (exn \<times> 's) + 's"
  variablesState :: "'s \<Rightarrow> exn + variables_state"
  onError_noop :: "'s \<Rightarrow> 's"
  type_error :: "'s \<Rightarrow> string \<Rightarrow> exn"

record line_info =
  line :: int
  endLine :: int
  fileMatch :: bool

definition getCurrentLine :: "'s engine \<Rightarrow> 's \<Rightarrow> string option \<Rightarrow> line_info option" where
  "getCurrentLine E s cursorFilePath =
     (case currentDebugMetadata E s of
        None \<Rightarrow> None
      | Some dm \<Rightarrow>
          Some \<lparr>line = startLineNumber dm, endLine = endLineNumber dm,
                fileMatch = fileMatchesCursor (Some dm) cursorFilePath\<rparr>)"

section \<open>Variable snapshotter\<close>

text \<open>A parsed JSON value; \<^verbatim>\<open>JSON.parse\<close> itself is the runtime's and is a parameter.\<close>

datatype json =
  JNull | JBool bool | JNum int | JStr string | JArr "json list" | JObj "(string \<times> json) list"

text \<open>
  An object created by \<^verbatim>\<open>{}\<close> and filled by assignments \<^verbatim>\<open>obj[name] = v\<close> is the list of
  its own properties in insertion order. \<open>obj_put\<close> is the assignment of an ordinary name:
  it adds the property, or replaces its value in place.
\<close>

type_synonym variable_snapshot = "(string \<times> js_value) list"

fun obj_put :: "string \<Rightarrow> 'a \<Rightarrow> (string \<times> 'a) list \<Rightarrow> (string \<times> 'a) list" where
  "obj_put k v [] = [(k, v)]"
| "obj_put k v ((k', v') # ps) = (if k' = k then (k, v) # ps else (k', v') # obj_put k v ps)"

text \<open>
  \<^verbatim>\<open>obj[name] = v\<close>. The name \<^verbatim>\<open>__proto__\<close> is not ordinary: the assignment goes to the
  accessor that the object inherits from \<^verbatim>\<open>Object.prototype\<close> and adds no property of the
  object's own; a value that is an object or null becomes the prototype of \<open>obj\<close> instead.
  (Once an object has become the prototype, an assignment to a name for which that object
  has a setter or a read-only property adds no property either. This is not followed
  here: the statements below about the content of a snapshot are about states that do not
  list a variable of this name, and the values that \<open>buildFileHierarchy\<close> assigns are
  strings.)
\<close>

definition obj_set :: "string \<Rightarrow> 'a \<Rightarrow> (string \<times> 'a) list \<Rightarrow> (string \<times> 'a) list" where
  "obj_set k v ps = (if k = ''__proto__'' then ps else obj_put k v ps)"

definition coerceValue :: "ink_object \<Rightarrow> exn + js_value" where
  "coerceValue val =
     (case val of
        Nullish \<Rightarrow> Inr JSNull
      | With_value v \<Rightarrow> Inr v
      | With_valueOf r \<Rightarrow> r
      | Other v \<Rightarrow> Inr v)"

text \<open>
  \<^verbatim>\<open>stateObj.variablesState\<close>: a read on null throws the runtime's error \<open>err\<close>, on a
  non-object gives undefined.
\<close>

definition member_variablesState :: "exn \<Rightarrow> json \<Rightarrow> exn + json option" where
  "member_variablesState err stateObj =
     (case stateObj of
        JNull \<Rightarrow> Inl err
      | JObj ps \<Rightarrow> Inr (map_of ps ''variablesState'')
      | _ \<Rightarrow> Inr None)"

text \<open>\<^verbatim>\<open>!vs || typeof vs !== "object"\<close> lets objects and arrays through.\<close>

definition is_object :: "json option \<Rightarrow> bool" where
  "is_object vs = (case vs of Some (JObj ps) \<Rightarrow> True | Some (JArr xs) \<Rightarrow> True | _ \<Rightarrow> False)"

function decimal :: "nat \<Rightarrow> string" where
  "decimal n =
     (if n < 10 then [char_of (48 + n)] else decimal (n div 10) @ [char_of (48 + n mod 10)])"
  by pat_completeness auto
termination
  by (relation "measure (\<lambda>n. n)") auto

text \<open>\<^verbatim>\<open>Object.keys\<close>: the keys of an object, the indices of an array.\<close>

definition Object_keys :: "json \<Rightarrow> string list" where
  "Object_keys vs =
     (case vs of
        JObj ps \<Rightarrow> map fst ps
      | JArr xs \<Rightarrow> map decimal [0 ..< length xs]
      | _ \<Rightarrow> [])"

text \<open>The body of the inner \<^verbatim>\<open>try\<close>: a failed read leaves \<open>vars\<close> as it was.\<close>

definition read_variable ::
  "(string \<Rightarrow> exn + ink_object) \<Rightarrow> string \<Rightarrow> variable_snapshot \<Rightarrow> variable_snapshot" where
  "read_variable getVarWithName name vars =
     (case getVarWithName name of
        Inl err \<Rightarrow> vars
      | Inr inkObj \<Rightarrow>
          (case coerceValue inkObj of
             Inl err \<Rightarrow> vars
           | Inr v \<Rightarrow> obj_set name v vars))"

fun snapshot_loop ::
  "(string \<Rightarrow> exn + ink_object) \<Rightarrow> string list \<Rightarrow> variable_snapshot \<Rightarrow> variable_snapshot" where
  "snapshot_loop getVarWithName [] vars = vars"
| "snapshot_loop getVarWithName (name # names) vars =
     snapshot_loop getVarWithName names (read_variable getVarWithName name vars)"

text \<open>
  \<^verbatim>\<open>state.ToJson ? state.ToJson() : (state.toJson && state.toJson())\<close>; the result is
  \<open>None\<close> where the expression is undefined.
\<close>

definition state_json :: "state_object \<Rightarrow> exn + string option" where
  "state_json st =
     (case ToJson_method st of
        Some r \<Rightarrow> map_sum id Some r
      | None \<Rightarrow>
          (case toJson_method st of
             None \<Rightarrow> Inr None
           | Some r \<Rightarrow> map_sum id Some r))"

definition snapshotVariablesState ::
  "(string \<Rightarrow> exn + json) \<Rightarrow> 's engine \<Rightarrow> 's \<Rightarrow> variable_snapshot" where
  "snapshotVariablesState JSON_parse E s =
     (case state E s of
        Inl e \<Rightarrow> []
      | Inr None \<Rightarrow> []
      | Inr (Some st) \<Rightarrow>
          (case state_json st of
             Inl e \<Rightarrow> []
           | Inr jsonStr \<Rightarrow>
               if \<not> truthy jsonStr then []
               else
                 (case JSON_parse (the jsonStr) of
                    Inl e \<Rightarrow> []
                  | Inr stateObj \<Rightarrow>
                      (case member_variablesState
                              (type_error E s ''stateObj.variablesState'') stateObj of
                         Inl e \<Rightarrow> []
                       | Inr vs \<Rightarrow>
                           if \<not> is_object vs then []
                           else
                             (case variablesState E s of
                                Inl e \<Rightarrow> []
                              | Inr No_variables_state \<Rightarrow> []
                              | Inr (Variables_state None) \<Rightarrow> []
                              | Inr (Variables_state (Some getVarWithName)) \<Rightarrow>
                                  snapshot_loop getVarWithName (Object_keys (the vs)) [])))))"

section \<open>Branch selector\<close>

text \<open>A recorded branch start line: a line number, or \<^verbatim>\<open>Infinity\<close>.\<close>

datatype start_line = Line int | Infinity

text \<open>\<^verbatim>\<open>branchStartLines[i] <= cursorLine\<close>; \<^verbatim>\<open>Infinity\<close> is below no line.\<close>

definition at_or_before :: "start_line \<Rightarrow> int \<Rightarrow> bool" where
  "at_or_before l cursorLine = (case l of Line n \<Rightarrow> n \<le> cursorLine | Infinity \<Rightarrow> False)"

text \<open>
  \<^verbatim>\<open>(dm && dm.startLineNumber) ? dm.startLineNumber : Infinity\<close>: a missing location
  and a start line of 0 are both falsy.
\<close>

definition recorded_start_line :: "debug_metadata option \<Rightarrow> start_line" where
  "recorded_start_line dm =
     (case dm of
        None \<Rightarrow> Infinity
      | Some d \<Rightarrow> if startLineNumber d \<noteq> 0 then Line (startLineNumber d) else Infinity)"

text \<open>\<^verbatim>\<open>story.state.ToJson()\<close>, called without any guard.\<close>

definition state_ToJson :: "'s engine \<Rightarrow> 's \<Rightarrow> exn + string" where
  "state_ToJson E s =
     (case state E s of
        Inl e \<Rightarrow> Inl e
      | Inr None \<Rightarrow> Inl (type_error E s ''story.state.ToJson()'')
      | Inr (Some st) \<Rightarrow>
          (case ToJson_method st of
             None \<Rightarrow> Inl (type_error E s ''story.state.ToJson()'')
           | Some r \<Rightarrow> r))"

text \<open>
  The probing loop, from index \<open>i\<close> on, over \<open>n\<close> choices: restore (after the first),
  choose, record. An exception leaves the loop at once, with the story as it then is.
\<close>

function probe_branches ::
  "'s engine \<Rightarrow> string \<Rightarrow> nat \<Rightarrow> nat \<Rightarrow> start_line list \<Rightarrow> 's
     \<Rightarrow> (exn \<times> 's) + (start_line list \<times> 's)" where
  "probe_branches E savedState n i branchStartLines s =
     (if i < n then
        (case (if 0 < i then LoadJson E s savedState else Inr s) of
           Inl x \<Rightarrow> Inl x
         | Inr s1 \<Rightarrow>
             (case ChooseChoiceIndex E s1 i of
                Inl x \<Rightarrow> Inl x
              | Inr s2 \<Rightarrow>
                  probe_branches E savedState n (i + 1)
                    (branchStartLines @ [recorded_start_line (currentDebugMetadata E s2)]) s2))
      else Inr (branchStartLines, s))"
  by pat_completeness auto
termination
  by (relation "measure (\<lambda>(E, savedState, n, i, branchStartLines, s). n - i)") auto

text \<open>The selection loop, from index \<open>i\<close> on, with the best branch so far.\<close>

function pick_branch :: "start_line list \<Rightarrow> int \<Rightarrow> nat \<Rightarrow> nat \<Rightarrow> nat" where
  "pick_branch branchStartLines cursorLine i bestBranch =
     (if i < length branchStartLines then
        pick_branch branchStartLines cursorLine (i + 1)
          (if at_or_before (branchStartLines ! i) cursorLine then i else bestBranch)
      else bestBranch)"
  by pat_completeness auto
termination
  by (relation "measure (\<lambda>(branchStartLines, cursorLine, i, bestBranch).
        length branchStartLines - i)") auto

definition chooseBranchIndex ::
  "'s engine \<Rightarrow> 's \<Rightarrow> string option \<Rightarrow> int \<Rightarrow> (exn \<times> 's) + (nat \<times> 's)" where
  "chooseBranchIndex E s cursorFilePath cursorLine =
     (case currentChoices E s of
        None \<Rightarrow> Inr (0, s)
      | Some choices \<Rightarrow>
          if length choices = 0 then Inr (0, s)
          else if length choices = 1 then Inr (0, s)
          else
            (case state_ToJson E s of
               Inl e \<Rightarrow> Inl (e, s)
             | Inr savedState \<Rightarrow>
                 (case probe_branches E savedState (length choices) 0 [] s of
                    Inl x \<Rightarrow> Inl x
                  | Inr (branchStartLines, s1) \<Rightarrow>
                      (case LoadJson E s1 savedState of
                         Inl x \<Rightarrow> Inl x
                       | Inr s2 \<Rightarrow> Inr (pick_branch branchStartLines cursorLine 0 0, s2)))))"

section \<open>Cursor-synchronized driver\<close>

definition MAX_STEPS :: nat where
  "MAX_STEPS = 10000"

text \<open>\<^verbatim>\<open>info && info.fileMatch && info.line >= cursorLine\<close>.\<close>

definition reached :: "line_info option \<Rightarrow> int \<Rightarrow> bool" where
  "reached info cursorLine =
     (case info of None \<Rightarrow> False | Some i \<Rightarrow> fileMatch i \<and> cursorLine \<le> line i)"

text \<open>\<^verbatim>\<open>story.currentChoices && story.currentChoices.length > 0\<close>.\<close>

definition has_choices :: "'s engine \<Rightarrow> 's \<Rightarrow> bool" where
  "has_choices E s = (case currentChoices E s of None \<Rightarrow> False | Some cs \<Rightarrow> 0 < length cs)"

text \<open>
  The \<^verbatim>\<open>while\<close> loop of \<^verbatim>\<open>runToCursor\<close>, entered with the counter \<open>steps\<close>, the story
  in \<open>s\<close> and the fallback \<open>lastVars\<close>. Beside what the loop returns or throws, the value
  of \<open>steps\<close> at that moment is given: the number of iterations begun so far.
\<close>

function runToCursor_loop ::
  "(string \<Rightarrow> exn + json) \<Rightarrow> 's engine \<Rightarrow> string option \<Rightarrow> int \<Rightarrow> nat \<Rightarrow> 's
     \<Rightarrow> variable_snapshot \<Rightarrow> ((exn \<times> 's) + (variable_snapshot \<times> 's)) \<times> nat" where
  "runToCursor_loop JSON_parse E cursorFilePath cursorLine steps s lastVars =
     (if steps < MAX_STEPS then
        (if canContinue E s then
           (let prevVars = snapshotVariablesState JSON_parse E s in
            case Continue E s of
              Inl x \<Rightarrow> (Inl x, steps + 1)
            | Inr s1 \<Rightarrow>
                if reached (getCurrentLine E s1 cursorFilePath) cursorLine
                then (Inr (snapshotVariablesState JSON_parse E s1, s1), steps + 1)
                else runToCursor_loop JSON_parse E cursorFilePath cursorLine (steps + 1) s1
                       (snapshotVariablesState JSON_parse E s1))
         else if has_choices E s then
           (case chooseBranchIndex E s cursorFilePath cursorLine of
              Inl x \<Rightarrow> (Inl x, steps + 1)
            | Inr (idx, s1) \<Rightarrow>
                (case ChooseChoiceIndex E s1 idx of
                   Inl x \<Rightarrow> (Inl x, steps + 1)
                 | Inr s2 \<Rightarrow>
                     runToCursor_loop JSON_parse E cursorFilePath cursorLine (steps + 1) s2
                       lastVars))
         else (Inr (snapshotVariablesState JSON_parse E s, s), steps + 1))
      else (Inr (lastVars, s), steps))"
  by pat_completeness auto
termination
  by (relation "measure (\<lambda>(JSON_parse, E, cursorFilePath, cursorLine, steps, s, lastVars).
        MAX_STEPS - steps)") auto

definition runToCursor ::
  "(string \<Rightarrow> exn + json) \<Rightarrow> 's engine \<Rightarrow> 's \<Rightarrow> string option \<Rightarrow> int
     \<Rightarrow> (exn \<times> 's) + (variable_snapshot \<times> 's)" where
  "runToCursor JSON_parse E s cursorFilePath cursorLine =
     fst (runToCursor_loop JSON_parse E cursorFilePath cursorLine 0 s
            (snapshotVariablesState JSON_parse E s))"

section \<open>Scene evaluation service\<close>

record ink_file =
  relativePath :: string
  getValue :: string

record project =
  files :: "ink_file list"
  mainInk :: "ink_file option"
  activeInkFile :: "ink_file option"

text \<open>
  The calls made on the presentation collaborator \<^verbatim>\<open>SceneView\<close>, in order; the calls
  themselves are taken not to throw.
\<close>

datatype scene_call = Clear | ShowError string | UpdateScene variable_snapshot

definition buildFileHierarchy :: "project \<Rightarrow> (string \<times> string) list" where
  "buildFileHierarchy p = fold (\<lambda>f hierarchy. obj_set (relativePath f) (getValue f) hierarchy) (files p) []"

text \<open>\<^verbatim>\<open>e && e.message ? e.message : String(e)\<close>.\<close>

definition error_text :: "exn \<Rightarrow> string" where
  "error_text e = (if truthy (message e) then the (message e) else as_string e)"

text \<open>\<^verbatim>\<open>errors.join("\n")\<close>.\<close>

fun join_lines :: "string list \<Rightarrow> string" where
  "join_lines [] = []"
| "join_lines [m] = m"
| "join_lines (m # ms) = m @ [CHR 0x0A] @ join_lines ms"

text \<open>
  The compiler is the engine's: \<open>Compile mainSource sourceFilename fileHierarchy\<close> throws,
  or yields \<^verbatim>\<open>compiler.errors\<close> (\<open>None\<close> when absent) and the story in its initial state.
\<close>

type_synonym 's compiler =
  "string \<Rightarrow> string \<Rightarrow> (string \<times> string) list \<Rightarrow> exn + (string list option \<times> 's)"

definition evaluateAtLine ::
  "(string \<Rightarrow> exn + json) \<Rightarrow> 's compiler \<Rightarrow> 's engine \<Rightarrow> int \<Rightarrow> string option
     \<Rightarrow> project option \<Rightarrow> scene_call list" where
  "evaluateAtLine JSON_parse Compile E cursorLine cursorFilePath proj =
     (case proj of
        None \<Rightarrow> [Clear]
      | Some p \<Rightarrow>
          (case mainInk p of
             None \<Rightarrow> [Clear]
           | Some main \<Rightarrow>
               (case Compile (getValue main) (relativePath main) (buildFileHierarchy p) of
                  Inl e \<Rightarrow> [ShowError (error_text e)]
                | Inr (errors, story) \<Rightarrow>
                    if (case errors of None \<Rightarrow> False | Some es \<Rightarrow> 0 < length es)
                    then [ShowError (join_lines (the errors))]
                    else
                      (case runToCursor JSON_parse E (onError_noop E story) cursorFilePath
                              cursorLine of
                         Inl (e, s') \<Rightarrow> [ShowError (error_text e)]
                       | Inr (variables, s') \<Rightarrow> [UpdateScene variables]))))"

text \<open>
  The module's state: the variable \<^verbatim>\<open>debounceTimer\<close>, the timeouts pending in the
  runtime (handle, and the arguments the callback will pass to \<^verbatim>\<open>evaluateAtLine\<close>), the
  next handle the runtime gives out, and the calls made on \<^verbatim>\<open>SceneView\<close> so far.
\<close>

record evaluator_state =
  debounceTimer :: "nat option"
  pending :: "(nat \<times> int \<times> string \<times> project) list"
  next_handle :: nat
  scene_calls :: "scene_call list"

definition clearTimeout :: "nat \<Rightarrow> evaluator_state \<Rightarrow> evaluator_state" where
  "clearTimeout h st = st\<lparr>pending := filter (\<lambda>t. fst t \<noteq> h) (pending st)\<rparr>"

definition evaluateAtCursorDebounced ::
  "int \<Rightarrow> project option \<Rightarrow> evaluator_state \<Rightarrow> evaluator_state" where
  "evaluateAtCursorDebounced cursorLine proj st =
     (let st1 = (case debounceTimer st of Some h \<Rightarrow> clearTimeout h st | None \<Rightarrow> st) in
      case proj of
        None \<Rightarrow> st1\<lparr>scene_calls := scene_calls st1 @ [Clear]\<rparr>
      | Some p \<Rightarrow>
          (case activeInkFile p of
             None \<Rightarrow> st1\<lparr>scene_calls := scene_calls st1 @ [Clear]\<rparr>
           | Some f \<Rightarrow>
               st1\<lparr>debounceTimer := Some (next_handle st1),
                    pending := pending st1 @ [(next_handle st1, cursorLine, relativePath f, p)],
                    next_handle := next_handle st1 + 1\<rparr>))"

text \<open>The timeout with handle \<open>h\<close> expires: its callback runs, if it is still pending.\<close>

definition timeout_expires ::
  "(string \<Rightarrow> exn + json) \<Rightarrow> 's compiler \<Rightarrow> 's engine \<Rightarrow> nat \<Rightarrow> evaluator_state
     \<Rightarrow> evaluator_state" where
  "timeout_expires JSON_parse Compile E h st =
     (case map_of (pending st) h of
        None \<Rightarrow> st
      | Some (cursorLine, cursorFilePath, p) \<Rightarrow>
          (clearTimeout h st)
            \<lparr>debounceTimer := None,
             scene_calls := scene_calls st
               @ evaluateAtLine JSON_parse Compile E cursorLine (Some cursorFilePath) (Some p)\<rparr>)"

section \<open>Notions used to state the properties\<close>

text \<open>The story after one \<^verbatim>\<open>Continue()\<close>, whether it returned or threw.\<close>

definition advance :: "'s engine \<Rightarrow> 's \<Rightarrow> 's" where
  "advance E s = (case Continue E s of Inl (e, s') \<Rightarrow> s' | Inr s' \<Rightarrow> s')"

text \<open>What one read of a variable contributes: its coerced value, or nothing.\<close>

definition read_value :: "(string \<Rightarrow> exn + ink_object) \<Rightarrow> string \<Rightarrow> js_value option" where
  "read_value getVarWithName name =
     (case getVarWithName name of
        Inl err \<Rightarrow> None
      | Inr inkObj \<Rightarrow> (case coerceValue inkObj of Inl err \<Rightarrow> None | Inr v \<Rightarrow> Some v))"

text \<open>
  The snapshot in the words of the specification's testable property for scripts without
  choice points: the variables the engine holds immediately before the first debug
  location whose start line is at or after the cursor line, or those of the final state.
  \<open>fuel\<close> bounds the number of steps looked at.
\<close>

fun spec_snapshot_before_cursor ::
  "(string \<Rightarrow> exn + json) \<Rightarrow> 's engine \<Rightarrow> int \<Rightarrow> nat \<Rightarrow> 's \<Rightarrow> variable_snapshot" where
  "spec_snapshot_before_cursor JSON_parse E cursorLine 0 s = snapshotVariablesState JSON_parse E s"
| "spec_snapshot_before_cursor JSON_parse E cursorLine (Suc fuel) s =
     (if canContinue E s then
        (case currentDebugMetadata E (advance E s) of
           Some dm \<Rightarrow>
             if cursorLine \<le> startLineNumber dm then snapshotVariablesState JSON_parse E s
             else spec_snapshot_before_cursor JSON_parse E cursorLine fuel (advance E s)
         | None \<Rightarrow> spec_snapshot_before_cursor JSON_parse E cursorLine fuel (advance E s))
      else snapshotVariablesState JSON_parse E s)"

section \<open>Small stories to run the definitions on\<close>

text \<open>
  The engine state of these stories is a position. The serialised state is the position in
  unary, so that restoring is exact; the one variable \<open>x\<close> holds the position.
\<close>

definition story_parse :: "string \<Rightarrow> exn + json" where
  "story_parse j = Inr (JObj [(''variablesState'', JObj [(''x'', JNum 0)])])"

definition story_state :: "nat \<Rightarrow> exn + state_object option" where
  "story_state s = Inr (Some (State_object (Some (Inr (CHR ''#'' # replicate s CHR ''I''))) None))"

definition story_variables :: "nat \<Rightarrow> exn + variables_state" where
  "story_variables s =
     Inr (Variables_state (Some (\<lambda>name.
       if name = ''x'' then Inr (With_value (JSNumber (int s))) else Inr Nullish)))"

text \<open>The one \<^verbatim>\<open>TypeError\<close> of the runtime these stories run on.\<close>

definition TypeError :: exn where
  "TypeError = Exn (Some ''TypeError'') ''TypeError''"

definition at_line :: "int \<Rightarrow> debug_metadata option" where
  "at_line n = Some \<lparr>startLineNumber = n, endLineNumber = n, fileName = None, sourceName = None\<rparr>"

text \<open>
  A script of three lines without choices: position \<open>n\<close> is reached by the \<open>n\<close>-th step,
  which executes line \<open>n\<close>.
\<close>

definition linear_story :: "nat engine" where
  "linear_story =
     \<lparr>canContinue = (\<lambda>s. s < 3),
      Continue = (\<lambda>s. Inr (s + 1)),
      currentChoices = (\<lambda>s. Some []),
      ChooseChoiceIndex = (\<lambda>s i. Inl (Exn (Some ''choice out of range'') ''Error'', s)),
      currentDebugMetadata = (\<lambda>s. if s = 0 then None else at_line (int s)),
      state = story_state,
      LoadJson = (\<lambda>s j. Inr (length j - 1)),
      variablesState = story_variables,
      onError_noop = (\<lambda>s. s),
      type_error = (\<lambda>s what. TypeError)\<rparr>"

text \<open>A script that loops for ever on one line, which lies before any cursor used below.\<close>

definition looping_story :: "nat engine" where
  "looping_story =
     linear_story\<lparr>canContinue := (\<lambda>s. True), currentDebugMetadata := (\<lambda>s. at_line 1)\<rparr>"

text \<open>
  The scenario of the specification: line 1, then a choice between X, whose branch starts
  at line 5, and Y, whose branch starts at line 8. Position 1 is the choice point,
  positions 10 and 20 are the starts of the branches, 11 and 21 their ends.
\<close>

definition branching_story :: "nat engine" where
  "branching_story =
     \<lparr>canContinue = (\<lambda>s. s = 0 \<or> s = 10 \<or> s = 20),
      Continue = (\<lambda>s. Inr (s + 1)),
      currentChoices = (\<lambda>s. if s = 1 then Some [''X'', ''Y''] else Some []),
      ChooseChoiceIndex = (\<lambda>s i.
        if s = 1 \<and> i < 2 then Inr (10 * (i + 1))
        else Inl (Exn (Some ''choice out of range'') ''Error'', s)),
      currentDebugMetadata = (\<lambda>s.
        if s = 0 then None else if s = 1 then at_line 1
        else if s < 20 then at_line 5 else at_line 8),
      state = story_state,
      LoadJson = (\<lambda>s j. Inr (length j - 1)),
      variablesState = story_variables,
      onError_noop = (\<lambda>s. s),
      type_error = (\<lambda>s what. TypeError)\<rparr>"

text \<open>
  The same story on an engine whose second choice fails: it moves to the branch and then
  throws.
\<close>

definition failing_story :: "nat engine" where
  "failing_story =
     branching_story\<lparr>ChooseChoiceIndex := (\<lambda>s i.
        if s = 1 \<and> i = 0 then Inr 10
        else Inl (Exn (Some ''choice failed'') ''Error'', 20))\<rparr>"

definition main_file :: ink_file where
  "main_file = \<lparr>relativePath = ''main.ink'', getValue = ''line one''\<rparr>"

definition one_file_project :: project where
  "one_file_project = \<lparr>files = [main_file], mainInk = Some main_file, activeInkFile = None\<rparr>"

definition story_compiler :: "nat compiler" where
  "story_compiler mainSource sourceFilename fileHierarchy = Inr (Some [], 0)"

definition idle :: evaluator_state where
  "idle = \<lparr>debounceTimer = None, pending = [], next_handle = 1, scene_calls = []\<rparr>"

text \<open>
  A story whose serialised state lists three variables, of which \<open>broken\<close> cannot be
  read and \<open>y\<close> is a plain string.
\<close>

definition fragile_parse :: "string \<Rightarrow> exn + json" where
  "fragile_parse j =
     Inr (JObj [(''variablesState'',
                 JObj [(''broken'', JNum 0), (''x'', JNum 0), (''y'', JStr [])])])"

definition fragile_getter :: "string \<Rightarrow> exn + ink_object" where
  "fragile_getter name =
     (if name = ''x'' then Inr (With_value (JSNumber 1))
      else if name = ''broken'' then Inl (Exn (Some ''corrupt variable'') ''Error'')
      else Inr (Other (JSString ''bg'')))"

definition fragile_story :: "nat engine" where
  "fragile_story =
     linear_story\<lparr>variablesState := (\<lambda>s. Inr (Variables_state (Some fragile_getter)))\<rparr>"

text \<open>The same story with a serialised state that lists a variable named \<^verbatim>\<open>__proto__\<close>.\<close>

definition proto_parse :: "string \<Rightarrow> exn + json" where
  "proto_parse j =
     Inr (JObj [(''variablesState'', JObj [(''__proto__'', JStr []), (''x'', JNum 0)])])"

text \<open>The recursive equations of the loops are unfolded by hand, one iteration at a time.\<close>

declare runToCursor_loop.simps [simp del]
declare probe_branches.simps [simp del]
declare pick_branch.simps [simp del]
declare decimal.simps [simp del]

section \<open>The driver's stopping test\<close>

lemma reached_iff:
  "reached (getCurrentLine E s cursorFilePath) cursorLine =
     (\<exists>dm. currentDebugMetadata E s = Some dm \<and> fileMatchesCursor (Some dm) cursorFilePath
        \<and> cursorLine \<le> startLineNumber dm)"
  by (simp add: reached_def getCurrentLine_def split: option.splits)

text \<open>
  Claim C3. In an iteration that finds the story able to continue, the driver executes one
  step and then stops, returning the snapshot of the story after that step, exactly when
  the debug location after the step passes the file-identity check and its start line is
  at or after the cursor line; otherwise the loop goes on with the counter advanced and
  the fallback snapshot updated.
\<close>

theorem runToCursor_stops_when_reached:
  assumes "steps < MAX_STEPS" and "canContinue E s" and "Continue E s = Inr s1"
  shows "runToCursor_loop JSON_parse E cursorFilePath cursorLine steps s lastVars =
     (if \<exists>dm. currentDebugMetadata E s1 = Some dm
            \<and> fileMatchesCursor (Some dm) cursorFilePath \<and> cursorLine \<le> startLineNumber dm
      then (Inr (snapshotVariablesState JSON_parse E s1, s1), steps + 1)
      else runToCursor_loop JSON_parse E cursorFilePath cursorLine (steps + 1) s1
             (snapshotVariablesState JSON_parse E s1))"
  using assms
  by (subst runToCursor_loop.simps) (simp add: reached_iff Let_def)

theorem runToCursor_stops_when_reached_witness:
  "(0::nat) < MAX_STEPS \<and> canContinue linear_story 1 \<and> Continue linear_story 1 = Inr 2 \<and>
   runToCursor_loop story_parse linear_story None 2 0 1 [] =
     (if \<exists>dm. currentDebugMetadata linear_story 2 = Some dm
            \<and> fileMatchesCursor (Some dm) None \<and> 2 \<le> startLineNumber dm
      then (Inr (snapshotVariablesState story_parse linear_story 2, 2), 0 + 1)
      else runToCursor_loop story_parse linear_story None 2 (0 + 1) 2
             (snapshotVariablesState story_parse linear_story 2))"
proof -
  have h1: "(0::nat) < MAX_STEPS" by (simp add: MAX_STEPS_def)
  have h2: "canContinue linear_story 1" by (simp add: linear_story_def)
  have h3: "Continue linear_story 1 = Inr 2" by (simp add: linear_story_def)
  show ?thesis using h1 h2 h3 runToCursor_stops_when_reached [OF h1 h2 h3] by simp
qed

text \<open>
  Claim C10. After a step that leaves the engine without debug metadata the stopping test
  fails whatever the cursor line and file are, and the driver goes on to the next
  iteration.
\<close>

theorem runToCursor_continues_without_metadata:
  assumes "steps < MAX_STEPS" and "canContinue E s" and "Continue E s = Inr s1"
    and "currentDebugMetadata E s1 = None"
  shows "getCurrentLine E s1 cursorFilePath = None
     \<and> \<not> reached (getCurrentLine E s1 cursorFilePath) cursorLine
     \<and> runToCursor_loop JSON_parse E cursorFilePath cursorLine steps s lastVars =
         runToCursor_loop JSON_parse E cursorFilePath cursorLine (steps + 1) s1
           (snapshotVariablesState JSON_parse E s1)"
  using assms
  by (subst runToCursor_loop.simps) (simp add: reached_def getCurrentLine_def Let_def)

theorem runToCursor_continues_without_metadata_witness:
  "(0::nat) < MAX_STEPS \<and> canContinue linear_story 0 \<and> Continue linear_story 0 = Inr 1
   \<and> currentDebugMetadata (linear_story\<lparr>currentDebugMetadata := (\<lambda>s. None)\<rparr>) 1 = None
   \<and> getCurrentLine (linear_story\<lparr>currentDebugMetadata := (\<lambda>s. None)\<rparr>) 1 None = None
   \<and> \<not> reached (getCurrentLine (linear_story\<lparr>currentDebugMetadata := (\<lambda>s. None)\<rparr>) 1 None) 1
   \<and> runToCursor_loop story_parse (linear_story\<lparr>currentDebugMetadata := (\<lambda>s. None)\<rparr>)
         None 1 0 0 [] =
       runToCursor_loop story_parse (linear_story\<lparr>currentDebugMetadata := (\<lambda>s. None)\<rparr>)
         None 1 (0 + 1) 1
         (snapshotVariablesState story_parse
            (linear_story\<lparr>currentDebugMetadata := (\<lambda>s. None)\<rparr>) 1)"
proof -
  let ?E = "linear_story\<lparr>currentDebugMetadata := (\<lambda>s. None)\<rparr>"
  have h1: "(0::nat) < MAX_STEPS" by (simp add: MAX_STEPS_def)
  have h2: "canContinue ?E 0" by (simp add: linear_story_def)
  have h3: "Continue ?E 0 = Inr 1" by (simp add: linear_story_def)
  have h4: "currentDebugMetadata ?E 1 = None" by simp
  show ?thesis
    using h1 h2 h3 h4
      runToCursor_continues_without_metadata [OF h1 h2 h3 h4,
        where cursorFilePath = None and cursorLine = 1 and JSON_parse = story_parse
          and lastVars = "[]"]
    by (simp add: reached_def)
qed

section \<open>The branch selector without choices\<close>

text \<open>
  Claim C9. Called with a missing or an empty choice list, the branch selector returns
  index 0 and leaves the story as it was; it does so whatever serialising, restoring and
  choosing would do, none of which it calls.
\<close>

theorem chooseBranchIndex_without_choices:
  assumes "currentChoices E s = None \<or> currentChoices E s = Some []"
  shows "chooseBranchIndex E s cursorFilePath cursorLine = Inr (0, s)
     \<and> chooseBranchIndex (E\<lparr>ChooseChoiceIndex := chs, state := st, LoadJson := ld\<rparr>) s
           cursorFilePath cursorLine = Inr (0, s)"
  using assms by (auto simp: chooseBranchIndex_def)

theorem chooseBranchIndex_without_choices_witness:
  "(currentChoices branching_story 11 = None \<or> currentChoices branching_story 11 = Some [])
   \<and> chooseBranchIndex branching_story 11 None 6 = Inr (0, 11)
   \<and> chooseBranchIndex
       (branching_story\<lparr>ChooseChoiceIndex := (\<lambda>s i. Inl (TypeError, 0)),
          state := (\<lambda>s. Inl TypeError), LoadJson := (\<lambda>s j. Inl (TypeError, 0))\<rparr>)
       11 None 6 = Inr (0, 11)"
proof -
  have h: "currentChoices branching_story 11 = None
      \<or> currentChoices branching_story 11 = Some []"
    by (simp add: branching_story_def)
  show ?thesis using h chooseBranchIndex_without_choices [OF h] by simp
qed

section \<open>Auxiliary facts about the loops\<close>

lemma map_of_obj_put: "map_of (obj_put k v ps) = (map_of ps)(k \<mapsto> v)"
  by (induction ps) (auto simp: fun_eq_iff)

lemma map_of_obj_set:
  "k \<noteq> ''__proto__'' \<Longrightarrow> map_of (obj_set k v ps) = (map_of ps)(k \<mapsto> v)"
  by (simp add: obj_set_def map_of_obj_put)

lemma map_of_read_variable:
  "name \<noteq> ''__proto__'' \<Longrightarrow> map_of (read_variable g name vars) =
     (case read_value g name of None \<Rightarrow> map_of vars | Some v \<Rightarrow> (map_of vars)(name \<mapsto> v))"
  by (simp add: read_variable_def read_value_def map_of_obj_set split: sum.splits)

lemma map_of_snapshot_loop:
  "''__proto__'' \<notin> set names \<Longrightarrow> map_of (snapshot_loop g names vars) n =
     (if n \<in> set names \<and> read_value g n \<noteq> None then read_value g n else map_of vars n)"
proof (induction names arbitrary: vars)
  case Nil
  then show ?case by simp
next
  case (Cons name names)
  then have "name \<noteq> ''__proto__''" and rest: "''__proto__'' \<notin> set names" by auto
  with Cons.IH [OF rest] show ?case
    by (auto simp: map_of_read_variable split: option.splits)
qed

lemma strip_dir_final_component:
  assumes "\<forall>c \<in> set p. \<not> line_terminator c"
  shows "strip_dir p = final_component p"
proof -
  have fl: "takeWhile (\<lambda>c. \<not> line_terminator c) p = p"
    using assms by (simp add: takeWhile_eq_all_conv)
  let ?t = "takeWhile (\<lambda>c. \<not> path_separator c) (rev p)"
  have "rev ?t = drop (length p - length ?t) p"
  proof -
    have "?t = take (length ?t) (rev p)"
      by (metis takeWhile_eq_take)
    then have "rev ?t = rev (take (length ?t) (rev p))" by simp
    also have "\<dots> = drop (length p - length ?t) p"
      by (simp add: rev_take)
    finally show ?thesis .
  qed
  moreover have "rev ?t = p" if "\<not> (\<exists>c \<in> set p. path_separator c)"
  proof -
    have "?t = rev p"
      by (rule iffD2 [OF takeWhile_eq_all_conv]) (use that in simp)
    then show ?thesis by (simp only: rev_rev_ident)
  qed
  ultimately show ?thesis
    by (auto simp: strip_dir_def final_component_def fl Let_def)
qed

lemma pick_branch_inv:
  "pick_branch ls c i b = r \<Longrightarrow>
     (r = b \<and> (\<forall>j. i \<le> j \<and> j < length ls \<longrightarrow> \<not> at_or_before (ls ! j) c))
     \<or> (i \<le> r \<and> r < length ls \<and> at_or_before (ls ! r) c
         \<and> (\<forall>j. r < j \<and> j < length ls \<longrightarrow> \<not> at_or_before (ls ! j) c))"
proof (induction ls c i b arbitrary: r rule: pick_branch.induct)
  case (1 ls c i b)
  show ?case
  proof (cases "i < length ls")
    case True
    let ?b = "if at_or_before (ls ! i) c then i else b"
    have "pick_branch ls c (i + 1) ?b = r"
      using "1.prems" True by (subst (asm) pick_branch.simps) simp
    from "1.IH" [OF True this]
    show ?thesis
    proof
      assume a: "r = ?b \<and> (\<forall>j. i + 1 \<le> j \<and> j < length ls \<longrightarrow> \<not> at_or_before (ls ! j) c)"
      show ?thesis
      proof (cases "at_or_before (ls ! i) c")
        case True
        with a \<open>i < length ls\<close> show ?thesis by auto
      next
        case False
        have "\<forall>j. i \<le> j \<and> j < length ls \<longrightarrow> \<not> at_or_before (ls ! j) c"
        proof (intro allI impI)
          fix j assume "i \<le> j \<and> j < length ls"
          then show "\<not> at_or_before (ls ! j) c"
            using a False by (cases "j = i") auto
        qed
        with a False show ?thesis by simp
      qed
    next
      assume "i + 1 \<le> r \<and> r < length ls \<and> at_or_before (ls ! r) c
         \<and> (\<forall>j. r < j \<and> j < length ls \<longrightarrow> \<not> at_or_before (ls ! j) c)"
      then show ?thesis by auto
    qed
  next
    case False
    then have "r = b" using "1.prems" by (subst (asm) pick_branch.simps) simp
    with False show ?thesis by auto
  qed
qed

lemma probe_branches_length:
  "probe_branches E saved n i acc s = Inr (ls, s1) \<Longrightarrow> i \<le> n \<Longrightarrow>
     length ls = length acc + (n - i)"
proof (induction E saved n i acc s rule: probe_branches.induct)
  case (1 E saved n i acc s)
  show ?case
  proof (cases "i < n")
    case True
    from "1.prems"(1) True obtain sa sb where
      a: "(if 0 < i then LoadJson E s saved else Inr s) = Inr sa"
      and b: "ChooseChoiceIndex E sa i = Inr sb"
      and c: "probe_branches E saved n (i + 1)
                (acc @ [recorded_start_line (currentDebugMetadata E sb)]) sb = Inr (ls, s1)"
      by (subst (asm) probe_branches.simps) (auto split: sum.splits if_splits)
    from "1.IH" [OF True a b c] True show ?thesis by simp
  next
    case False
    with "1.prems" show ?thesis by (subst (asm) probe_branches.simps) simp
  qed
qed


lemma probe_branches_prefix:
  "probe_branches E saved n i acc s0 = Inr (ls, s1) \<Longrightarrow> take (length acc) ls = acc"
proof (induction E saved n i acc s0 rule: probe_branches.induct)
  case (1 E saved n i acc s0)
  show ?case
  proof (cases "i < n")
    case True
    from "1.prems" True obtain sa sb where
      a: "(if 0 < i then LoadJson E s0 saved else Inr s0) = Inr sa"
      and b: "ChooseChoiceIndex E sa i = Inr sb"
      and c: "probe_branches E saved n (i + 1)
                (acc @ [recorded_start_line (currentDebugMetadata E sb)]) sb = Inr (ls, s1)"
      by (subst (asm) probe_branches.simps) (auto split: sum.splits if_splits)
    have "take (length acc) (take (length acc + 1) ls) = acc"
      using "1.IH" [OF True a b c] by simp
    then show ?thesis by (simp add: min_def)
  next
    case False
    with "1.prems" show ?thesis by (subst (asm) probe_branches.simps) simp
  qed
qed

lemma probe_branches_records:
  assumes "probe_branches E saved n i acc s0 = Inr (ls, s1)"
  shows "\<forall>k. i \<le> k \<and> k < n \<longrightarrow>
           (\<exists>r t. ((k = 0 \<and> r = s0) \<or> (0 < k \<and> (\<exists>u. LoadJson E u saved = Inr r)))
              \<and> ChooseChoiceIndex E r k = Inr t
              \<and> ls ! (length acc + (k - i)) = recorded_start_line (currentDebugMetadata E t))"
  using assms
proof (induction E saved n i acc s0 rule: probe_branches.induct)
  case (1 E saved n i acc s0)
  show ?case
  proof (cases "i < n")
    case True
    from "1.prems" True obtain sa sb where
      a: "(if 0 < i then LoadJson E s0 saved else Inr s0) = Inr sa"
      and b: "ChooseChoiceIndex E sa i = Inr sb"
      and c: "probe_branches E saved n (i + 1)
                (acc @ [recorded_start_line (currentDebugMetadata E sb)]) sb = Inr (ls, s1)"
      by (subst (asm) probe_branches.simps) (auto split: sum.splits if_splits)
    note ih = "1.IH" [OF True a b c]
    have origin: "(i = 0 \<and> sa = s0) \<or> (0 < i \<and> (\<exists>u. LoadJson E u saved = Inr sa))"
      using a by (cases "0 < i") auto
    have tk: "take (length acc + 1) ls = acc @ [recorded_start_line (currentDebugMetadata E sb)]"
      using probe_branches_prefix [OF c] by simp
    have here: "ls ! length acc = recorded_start_line (currentDebugMetadata E sb)"
    proof -
      have "ls ! length acc = take (length acc + 1) ls ! length acc" by simp
      also have "\<dots> = recorded_start_line (currentDebugMetadata E sb)"
        unfolding tk by simp
      finally show ?thesis .
    qed
    show ?thesis
    proof (intro allI impI)
      fix k assume k: "i \<le> k \<and> k < n"
      show "\<exists>r t. ((k = 0 \<and> r = s0) \<or> (0 < k \<and> (\<exists>u. LoadJson E u saved = Inr r)))
              \<and> ChooseChoiceIndex E r k = Inr t
              \<and> ls ! (length acc + (k - i)) = recorded_start_line (currentDebugMetadata E t)"
      proof (cases "k = i")
        case True
        have "ls ! (length acc + (k - i)) = recorded_start_line (currentDebugMetadata E sb)"
          using True here by simp
        with origin b True show ?thesis by blast
      next
        case False
        with k have later: "i + 1 \<le> k \<and> k < n" and pos: "0 < k" by simp_all
        from ih later obtain r t where
          d: "(k = 0 \<and> r = sb) \<or> (0 < k \<and> (\<exists>u. LoadJson E u saved = Inr r))"
          and t1: "ChooseChoiceIndex E r k = Inr t"
          and t2: "ls ! (length (acc @ [recorded_start_line (currentDebugMetadata E sb)])
                     + (k - (i + 1))) = recorded_start_line (currentDebugMetadata E t)"
          by blast
        from d pos have d': "0 < k \<and> (\<exists>u. LoadJson E u saved = Inr r)" by blast
        have e: "length (acc @ [recorded_start_line (currentDebugMetadata E sb)])
                   + (k - (i + 1)) = length acc + (k - i)"
          using k False by (simp del: One_nat_def) arith
        show ?thesis using d' t1 t2 unfolding e by blast
      qed
    qed
  next
    case False
    then have "\<not> (i \<le> k \<and> k < n)" for k by arith
    then show ?thesis by blast
  qed
qed

lemma at_or_before_iff: "at_or_before x c = (\<exists>l. x = Line l \<and> l \<le> c)"
  by (cases x) (simp_all add: at_or_before_def)

lemma pick_branch_last:
  assumes "i < length ls" and "at_or_before (ls ! i) c"
    and "\<forall>j. i < j \<and> j < length ls \<longrightarrow> \<not> at_or_before (ls ! j) c"
  shows "pick_branch ls c 0 0 = i"
proof -
  let ?r = "pick_branch ls c 0 0"
  from pick_branch_inv [OF refl, of ls c 0 0]
  show ?thesis
  proof
    assume "?r = 0 \<and> (\<forall>j. 0 \<le> j \<and> j < length ls \<longrightarrow> \<not> at_or_before (ls ! j) c)"
    with assms(1,2) show ?thesis by auto
  next
    assume a: "0 \<le> ?r \<and> ?r < length ls \<and> at_or_before (ls ! ?r) c
      \<and> (\<forall>j. ?r < j \<and> j < length ls \<longrightarrow> \<not> at_or_before (ls ! j) c)"
    have "\<not> ?r < i" using a assms(1,2) by auto
    moreover have "\<not> i < ?r" using a assms(3) by auto
    ultimately show ?thesis by simp
  qed
qed

section \<open>The file-identity check\<close>

lemma fileMatchesCursor_cases:
  "fileMatchesCursor (Some dm) cursorFilePath =
     (\<not> truthy (or_else (fileName dm) (sourceName dm))
      \<or> \<not> truthy cursorFilePath
      \<or> or_else (fileName dm) (sourceName dm) = cursorFilePath
      \<or> strip_dir (the (or_else (fileName dm) (sourceName dm))) = strip_dir (the cursorFilePath))"
  by (simp add: fileMatchesCursor_def Let_def)

text \<open>
  On paths without line terminators the check is the one the documentation describes:
  it accepts when either path is absent or empty, when the two are equal, and when their
  final components are equal, and rejects otherwise.
\<close>

lemma fileMatchesCursor_plain_paths:
  assumes "or_else (fileName dm) (sourceName dm) = Some name" and "cursorFilePath = Some path"
    and "\<forall>c \<in> set name. \<not> line_terminator c" and "\<forall>c \<in> set path. \<not> line_terminator c"
  shows "fileMatchesCursor (Some dm) cursorFilePath =
     (name = [] \<or> path = [] \<or> name = path \<or> final_component name = final_component path)"
  using assms
  by (auto simp: fileMatchesCursor_cases truthy_def strip_dir_final_component)

text \<open>
  Claim C7. The file-identity check is to accept whenever the final path components of
  the location's file and of the cursor's file are equal. The location's file
  \<^verbatim>\<open>main.ink\<close> and the cursor's file \<^verbatim>\<open>main.ink\<close> in a directory whose name holds a line
  feed have the same final component, and the check rejects the pair: the dot of the
  pattern stops at the line feed, so nothing is stripped from the cursor's path.
\<close>

theorem fileMatchesCursor_line_terminator_path:
  "fileMatchesCursor
     (Some \<lparr>startLineNumber = 1, endLineNumber = 1, fileName = Some ''main.ink'',
            sourceName = None\<rparr>)
     (Some ''my\<newline>proj/main.ink'') = False
   \<and> final_component ''main.ink'' = final_component ''my\<newline>proj/main.ink''"
  by (simp add: fileMatchesCursor_def or_else_def truthy_def strip_dir_def final_component_def
      line_terminator_def path_separator_def)

section \<open>The branch selector with two or more choices\<close>

lemma chooseBranchIndex_probing:
  assumes "currentChoices E s = Some choices" and "2 \<le> length choices"
  shows "chooseBranchIndex E s cursorFilePath cursorLine =
     (case state_ToJson E s of
        Inl e \<Rightarrow> Inl (e, s)
      | Inr savedState \<Rightarrow>
          (case probe_branches E savedState (length choices) 0 [] s of
             Inl x \<Rightarrow> Inl x
           | Inr (branchStartLines, s1) \<Rightarrow>
               (case LoadJson E s1 savedState of
                  Inl x \<Rightarrow> Inl x
                | Inr s2 \<Rightarrow> Inr (pick_branch branchStartLines cursorLine 0 0, s2))))"
proof -
  have "choices \<noteq> []" and "length choices \<noteq> Suc 0"
    using assms(2) by auto
  then show ?thesis using assms(1) by (simp add: chooseBranchIndex_def)
qed

lemma chooseBranchIndex_returns:
  assumes "currentChoices E s = Some choices" and "2 \<le> length choices"
    and "chooseBranchIndex E s cursorFilePath cursorLine = Inr (idx, s')"
  obtains savedState ls s1 where "state_ToJson E s = Inr savedState"
    and "probe_branches E savedState (length choices) 0 [] s = Inr (ls, s1)"
    and "LoadJson E s1 savedState = Inr s'" and "idx = pick_branch ls cursorLine 0 0"
  using assms(3) unfolding chooseBranchIndex_probing [OF assms(1,2)]
  by (auto split: sum.splits prod.splits)

lemma pick_branch_ascending:
  assumes "sorted_wrt (<) Ls" and "i < length Ls" and "Ls ! i \<le> c"
    and "Suc i < length Ls \<longrightarrow> c < Ls ! Suc i"
  shows "pick_branch (map Line Ls) c 0 0 = i"
proof -
  have later: "\<not> at_or_before (map Line Ls ! j) c" if "i < j" "j < length Ls" for j
  proof -
    from that have "Suc i < length Ls" by simp
    with assms(4) have "c < Ls ! Suc i" by simp
    moreover have "Ls ! Suc i \<le> Ls ! j"
    proof (cases "Suc i = j")
      case True then show ?thesis by simp
    next
      case False
      with that have "Suc i < j" by simp
      from sorted_wrt_nth_less [OF assms(1) this that(2)] show ?thesis by simp
    qed
    ultimately show ?thesis using that by (simp add: at_or_before_def)
  qed
  have here: "at_or_before (map Line Ls ! i) c"
    using assms(2,3) by (simp add: at_or_before_def)
  from pick_branch_inv [OF refl, of "map Line Ls" c 0 0]
  show ?thesis
  proof
    assume "pick_branch (map Line Ls) c 0 0 = 0
      \<and> (\<forall>j. 0 \<le> j \<and> j < length (map Line Ls) \<longrightarrow> \<not> at_or_before (map Line Ls ! j) c)"
    with here assms(2) show ?thesis by auto
  next
    assume a: "0 \<le> pick_branch (map Line Ls) c 0 0
      \<and> pick_branch (map Line Ls) c 0 0 < length (map Line Ls)
      \<and> at_or_before (map Line Ls ! pick_branch (map Line Ls) c 0 0) c
      \<and> (\<forall>j. pick_branch (map Line Ls) c 0 0 < j \<and> j < length (map Line Ls)
            \<longrightarrow> \<not> at_or_before (map Line Ls ! j) c)"
    let ?r = "pick_branch (map Line Ls) c 0 0"
    have "\<not> ?r < i" using a here assms(2) by auto
    moreover have "\<not> i < ?r" using a later by auto
    ultimately show ?thesis by simp
  qed
qed

lemma pick_branch_before_all:
  assumes "\<forall>j < length ls. \<not> at_or_before (ls ! j) c"
  shows "pick_branch ls c 0 0 = 0"
  using pick_branch_inv [OF refl, of ls c 0 0] assms by auto

text \<open>
  Claim C1. At a choice point with two or more choices from which the selector returns,
  probing has chosen every index \<open>k\<close> in turn, from the story as it was for the first and
  from a restore of the saved state for the others, and has recorded for it the start line
  of the debug location met right after the choice: that line when there is a location
  with a non-zero start line, and \<^verbatim>\<open>Infinity\<close> otherwise. The index returned is the
  highest one whose recorded line is at or before the cursor line, or 0 when no recorded
  line is. In particular, when the locations met after the choices have ascending start
  lines \<open>L\<^sub>1 < \<dots> < L\<^sub>k\<close> (a line of 0, which the test of source line 113 takes for no
  line, at most for the first), a cursor line from \<open>L\<^sub>i\<close> up to but not including \<open>L\<^sub>i\<^sub>+\<^sub>1\<close>
  selects branch \<open>i\<close>, and a cursor line before \<open>L\<^sub>1\<close> selects the first branch; the same
  holds of any ascending list of lines that probing has recorded. When the restore gives
  back the story as it was, every choice has been made from that story.
\<close>

theorem chooseBranchIndex_picks_last_started:
  assumes "currentChoices E s = Some choices" and "2 \<le> length choices"
    and "chooseBranchIndex E s cursorFilePath cursorLine = Inr (idx, s')"
  shows "\<exists>savedState branchStartLines s1 after.
      state_ToJson E s = Inr savedState
    \<and> probe_branches E savedState (length choices) 0 [] s = Inr (branchStartLines, s1)
    \<and> length branchStartLines = length choices
    \<and> (\<forall>k < length choices.
          (\<exists>r. ((k = 0 \<and> r = s) \<or> (0 < k \<and> (\<exists>u. LoadJson E u savedState = Inr r)))
              \<and> ChooseChoiceIndex E r k = Inr (after k))
        \<and> branchStartLines ! k =
            (case currentDebugMetadata E (after k) of
               None \<Rightarrow> Infinity
             | Some d \<Rightarrow>
                 if startLineNumber d \<noteq> 0 then Line (startLineNumber d) else Infinity))
    \<and> ((\<forall>t. LoadJson E t savedState = Inr s) \<longrightarrow>
         (\<forall>k < length choices. ChooseChoiceIndex E s k = Inr (after k)))
    \<and> idx < length choices
    \<and> (if \<exists>i < length choices. \<exists>l. branchStartLines ! i = Line l \<and> l \<le> cursorLine
        then (\<exists>l. branchStartLines ! idx = Line l \<and> l \<le> cursorLine)
           \<and> (\<forall>j l. idx < j \<and> j < length choices \<and> branchStartLines ! j = Line l
                 \<longrightarrow> cursorLine < l)
        else idx = 0)
    \<and> (\<forall>Ls. length Ls = length choices
           \<and> (\<forall>k < length choices. \<exists>d. currentDebugMetadata E (after k) = Some d
                  \<and> startLineNumber d = Ls ! k)
           \<and> sorted_wrt (<) Ls \<and> (\<forall>k < length choices. 0 < k \<longrightarrow> Ls ! k \<noteq> 0)
         \<longrightarrow> (\<forall>i < length choices.
                 Ls ! i \<le> cursorLine \<and> (Suc i < length choices \<longrightarrow> cursorLine < Ls ! Suc i)
                 \<longrightarrow> idx = i)
             \<and> (cursorLine < Ls ! 0 \<longrightarrow> idx = 0))
    \<and> (\<forall>Ls i. branchStartLines = map Line Ls \<and> sorted_wrt (<) Ls \<and> i < length Ls
           \<and> Ls ! i \<le> cursorLine \<and> (Suc i < length Ls \<longrightarrow> cursorLine < Ls ! Suc i)
         \<longrightarrow> idx = i)
    \<and> (\<forall>Ls. branchStartLines = map Line Ls \<and> sorted_wrt (<) Ls \<and> cursorLine < Ls ! 0
         \<longrightarrow> idx = 0)"
proof -
  let ?n = "length choices"
  from chooseBranchIndex_returns [OF assms] obtain savedState ls s1 where
    sv: "state_ToJson E s = Inr savedState"
    and pr: "probe_branches E savedState ?n 0 [] s = Inr (ls, s1)"
    and ld: "LoadJson E s1 savedState = Inr s'" and idx: "idx = pick_branch ls cursorLine 0 0"
    by blast
  have len: "length ls = ?n"
    using probe_branches_length [OF pr] by simp
  have "\<forall>k. \<exists>t. k < ?n \<longrightarrow>
          (\<exists>r. ((k = 0 \<and> r = s) \<or> (0 < k \<and> (\<exists>u. LoadJson E u savedState = Inr r)))
              \<and> ChooseChoiceIndex E r k = Inr t)
        \<and> ls ! k = recorded_start_line (currentDebugMetadata E t)"
  proof
    fix k
    show "\<exists>t. k < ?n \<longrightarrow>
          (\<exists>r. ((k = 0 \<and> r = s) \<or> (0 < k \<and> (\<exists>u. LoadJson E u savedState = Inr r)))
              \<and> ChooseChoiceIndex E r k = Inr t)
        \<and> ls ! k = recorded_start_line (currentDebugMetadata E t)"
    proof (cases "k < ?n")
      case True
      then have "0 \<le> k \<and> k < ?n" by simp
      from probe_branches_records [OF pr, THEN spec, THEN mp, OF this] obtain r t where
        c1: "(k = 0 \<and> r = s) \<or> (0 < k \<and> (\<exists>u. LoadJson E u savedState = Inr r))"
        and c2: "ChooseChoiceIndex E r k = Inr t"
        and c3: "ls ! (length ([] :: start_line list) + (k - 0))
           = recorded_start_line (currentDebugMetadata E t)"
        by blast
      from c3 have "ls ! k = recorded_start_line (currentDebugMetadata E t)" by simp
      with c1 c2 show ?thesis by blast
    next
      case False
      then show ?thesis by simp
    qed
  qed
  from choice [OF this] obtain after where
    after: "\<forall>k. k < ?n \<longrightarrow>
          (\<exists>r. ((k = 0 \<and> r = s) \<or> (0 < k \<and> (\<exists>u. LoadJson E u savedState = Inr r)))
              \<and> ChooseChoiceIndex E r k = Inr (after k))
        \<and> ls ! k = recorded_start_line (currentDebugMetadata E (after k))"
    by blast
  have states: "\<forall>k < ?n.
          (\<exists>r. ((k = 0 \<and> r = s) \<or> (0 < k \<and> (\<exists>u. LoadJson E u savedState = Inr r)))
              \<and> ChooseChoiceIndex E r k = Inr (after k))
        \<and> ls ! k =
            (case currentDebugMetadata E (after k) of
               None \<Rightarrow> Infinity
             | Some d \<Rightarrow>
                 if startLineNumber d \<noteq> 0 then Line (startLineNumber d) else Infinity)"
    using after unfolding recorded_start_line_def by blast
  have exact: "(\<forall>t. LoadJson E t savedState = Inr s) \<longrightarrow>
         (\<forall>k < ?n. ChooseChoiceIndex E s k = Inr (after k))"
  proof (intro impI allI)
    fix k
    assume r: "\<forall>t. LoadJson E t savedState = Inr s" and k: "k < ?n"
    from after k obtain r' where
      d: "(k = 0 \<and> r' = s) \<or> (0 < k \<and> (\<exists>u. LoadJson E u savedState = Inr r'))"
      and c: "ChooseChoiceIndex E r' k = Inr (after k)"
      by blast
    from d r have "r' = s" by auto
    with c show "ChooseChoiceIndex E s k = Inr (after k)" by simp
  qed
  note inv = pick_branch_inv [OF idx [symmetric]]
  have bound: "idx < ?n"
    using inv len assms(2) by auto
  have sel0: "if \<exists>i < length ls. at_or_before (ls ! i) cursorLine
        then at_or_before (ls ! idx) cursorLine
           \<and> (\<forall>j. idx < j \<and> j < length ls \<longrightarrow> \<not> at_or_before (ls ! j) cursorLine)
        else idx = 0"
    using inv by auto
  have sel: "if \<exists>i < ?n. \<exists>l. ls ! i = Line l \<and> l \<le> cursorLine
        then (\<exists>l. ls ! idx = Line l \<and> l \<le> cursorLine)
           \<and> (\<forall>j l. idx < j \<and> j < ?n \<and> ls ! j = Line l \<longrightarrow> cursorLine < l)
        else idx = 0"
  proof (cases "\<exists>i < ?n. \<exists>l. ls ! i = Line l \<and> l \<le> cursorLine")
    case True
    then have "\<exists>i < length ls. at_or_before (ls ! i) cursorLine"
      unfolding len at_or_before_iff .
    with sel0 have q: "at_or_before (ls ! idx) cursorLine"
      and later: "\<forall>j. idx < j \<and> j < length ls \<longrightarrow> \<not> at_or_before (ls ! j) cursorLine"
      by simp_all
    have "cursorLine < l" if "idx < j" "j < ?n" "ls ! j = Line l" for j l
    proof -
      from that(1,2) have "idx < j \<and> j < length ls" by (simp add: len)
      with later have "\<not> at_or_before (ls ! j) cursorLine" by blast
      with that(3) show ?thesis by (simp add: at_or_before_def)
    qed
    with q True show ?thesis unfolding at_or_before_iff by auto
  next
    case False
    then have "\<not> (\<exists>i < length ls. at_or_before (ls ! i) cursorLine)"
      unfolding len at_or_before_iff .
    with sel0 have "idx = 0" by simp
    then show ?thesis unfolding if_not_P [OF False] .
  qed
  have located: "\<forall>Ls. length Ls = ?n
           \<and> (\<forall>k < ?n. \<exists>d. currentDebugMetadata E (after k) = Some d
                  \<and> startLineNumber d = Ls ! k)
           \<and> sorted_wrt (<) Ls \<and> (\<forall>k < ?n. 0 < k \<longrightarrow> Ls ! k \<noteq> 0)
         \<longrightarrow> (\<forall>i < ?n.
                 Ls ! i \<le> cursorLine \<and> (Suc i < ?n \<longrightarrow> cursorLine < Ls ! Suc i)
                 \<longrightarrow> idx = i)
             \<and> (cursorLine < Ls ! 0 \<longrightarrow> idx = 0)"
  proof (intro allI impI)
    fix Ls
    assume a: "length Ls = ?n
           \<and> (\<forall>k < ?n. \<exists>d. currentDebugMetadata E (after k) = Some d
                  \<and> startLineNumber d = Ls ! k)
           \<and> sorted_wrt (<) Ls \<and> (\<forall>k < ?n. 0 < k \<longrightarrow> Ls ! k \<noteq> 0)"
    have lsk: "ls ! k = (if Ls ! k \<noteq> 0 then Line (Ls ! k) else Infinity)" if "k < ?n" for k
    proof -
      from a that obtain d where "currentDebugMetadata E (after k) = Some d"
        "startLineNumber d = Ls ! k" by blast
      with states that show ?thesis by simp
    qed
    have mono: "Ls ! j1 \<le> Ls ! j2" if "j1 \<le> j2" "j2 < ?n" for j1 j2
    proof (cases "j1 = j2")
      case True
      then show ?thesis by simp
    next
      case False
      with that have "j1 < j2" "j2 < length Ls" using a by simp_all
      from sorted_wrt_nth_less [of "(<)" Ls j1 j2] a this show ?thesis by simp
    qed
    have beyond: "\<not> at_or_before (ls ! j) cursorLine"
      if "j < ?n" "cursorLine < Ls ! j" for j
      using lsk [OF that(1)] that(2) by (simp add: at_or_before_def)
    show "(\<forall>i < ?n.
                 Ls ! i \<le> cursorLine \<and> (Suc i < ?n \<longrightarrow> cursorLine < Ls ! Suc i)
                 \<longrightarrow> idx = i)
             \<and> (cursorLine < Ls ! 0 \<longrightarrow> idx = 0)"
    proof (intro conjI allI impI)
      fix i
      assume i: "i < ?n"
        and w: "Ls ! i \<le> cursorLine \<and> (Suc i < ?n \<longrightarrow> cursorLine < Ls ! Suc i)"
      have later: "\<forall>j. i < j \<and> j < length ls \<longrightarrow> \<not> at_or_before (ls ! j) cursorLine"
      proof (intro allI impI)
        fix j assume j: "i < j \<and> j < length ls"
        then have "Suc i < ?n" and "j < ?n" and "Suc i \<le> j" using len by simp_all
        with w mono [of "Suc i" j] have "cursorLine < Ls ! j" by simp
        with beyond \<open>j < ?n\<close> show "\<not> at_or_before (ls ! j) cursorLine" by blast
      qed
      show "idx = i"
      proof (cases "Ls ! i = 0")
        case False
        with lsk [OF i] w have "at_or_before (ls ! i) cursorLine"
          by (simp add: at_or_before_def)
        from pick_branch_last [OF _ this later] i len idx show ?thesis by simp
      next
        case True
        with a i have i0: "i = 0" by (cases "i = 0") auto
        have "\<forall>j < length ls. \<not> at_or_before (ls ! j) cursorLine"
        proof (intro allI impI)
          fix j assume j: "j < length ls"
          show "\<not> at_or_before (ls ! j) cursorLine"
          proof (cases "j = 0")
            case j0: True
            with lsk [OF i] True i0 show ?thesis by (simp add: at_or_before_def)
          next
            case False
            with later i0 j show ?thesis by simp
          qed
        qed
        from pick_branch_before_all [OF this] idx i0 show ?thesis by simp
      qed
    next
      assume b: "cursorLine < Ls ! 0"
      have "\<forall>j < length ls. \<not> at_or_before (ls ! j) cursorLine"
      proof (intro allI impI)
        fix j assume j: "j < length ls"
        with mono [of 0 j] b len have "cursorLine < Ls ! j" by simp
        with beyond j len show "\<not> at_or_before (ls ! j) cursorLine" by simp
      qed
      from pick_branch_before_all [OF this] idx show "idx = 0" by simp
    qed
  qed
  have asc: "\<forall>Ls i. ls = map Line Ls \<and> sorted_wrt (<) Ls \<and> i < length Ls
           \<and> Ls ! i \<le> cursorLine \<and> (Suc i < length Ls \<longrightarrow> cursorLine < Ls ! Suc i)
         \<longrightarrow> idx = i"
  proof (intro allI impI)
    fix Ls i
    assume a: "ls = map Line Ls \<and> sorted_wrt (<) Ls \<and> i < length Ls
           \<and> Ls ! i \<le> cursorLine \<and> (Suc i < length Ls \<longrightarrow> cursorLine < Ls ! Suc i)"
    then have "pick_branch (map Line Ls) cursorLine 0 0 = i"
      by (intro pick_branch_ascending) simp_all
    with a idx show "idx = i" by simp
  qed
  have first: "\<forall>Ls. ls = map Line Ls \<and> sorted_wrt (<) Ls \<and> cursorLine < Ls ! 0 \<longrightarrow> idx = 0"
  proof (intro allI impI)
    fix Ls assume a: "ls = map Line Ls \<and> sorted_wrt (<) Ls \<and> cursorLine < Ls ! 0"
    have "\<not> at_or_before (ls ! j) cursorLine" if "j < length ls" for j
    proof -
      have "Ls ! 0 \<le> Ls ! j"
      proof (cases "j = 0")
        case True then show ?thesis by simp
      next
        case False
        then have "0 < j" by simp
        from sorted_wrt_nth_less [of "(<)" Ls 0 j] a this that show ?thesis by simp
      qed
      with a that show ?thesis by (simp add: at_or_before_def)
    qed
    then have "\<forall>j < length ls. \<not> at_or_before (ls ! j) cursorLine" by blast
    from pick_branch_before_all [OF this] idx show "idx = 0" by simp
  qed
  show ?thesis
    apply (rule exI [where x = savedState])
    apply (rule exI [where x = ls])
    apply (rule exI [where x = s1])
    apply (rule exI [where x = after])
    apply (intro conjI)
    apply (rule sv)
    apply (rule pr)
    apply (rule len)
    apply (rule states)
    apply (rule exact)
    apply (rule bound)
    apply (rule sel)
    apply (rule located)
    apply (rule asc)
    apply (rule first)
    done
qed

theorem chooseBranchIndex_picks_last_started_witness:
  "currentChoices branching_story 1 = Some [''X'', ''Y'']
   \<and> 2 \<le> length [''X'', ''Y'']
   \<and> chooseBranchIndex branching_story 1 None 9 = Inr (1, 1)
   \<and> (\<forall>t. LoadJson branching_story t ''#I'' = Inr 1)
   \<and> ChooseChoiceIndex branching_story 1 0 = Inr 10
   \<and> ChooseChoiceIndex branching_story 1 1 = Inr 20
   \<and> currentDebugMetadata branching_story 10 = at_line 5
   \<and> currentDebugMetadata branching_story 20 = at_line 8
   \<and> sorted_wrt (<) [5, 8 :: int]
   \<and> chooseBranchIndex branching_story 1 None 6 = Inr (0, 1)
   \<and> chooseBranchIndex branching_story 1 None 2 = Inr (0, 1)
   \<and> (\<exists>savedState branchStartLines s1 after.
      state_ToJson branching_story 1 = Inr savedState
    \<and> probe_branches branching_story savedState (length [''X'', ''Y'']) 0 [] 1
         = Inr (branchStartLines, s1)
    \<and> length branchStartLines = length [''X'', ''Y'']
    \<and> (\<forall>k < length [''X'', ''Y''].
          (\<exists>r. ((k = 0 \<and> r = 1)
                  \<or> (0 < k \<and> (\<exists>u. LoadJson branching_story u savedState = Inr r)))
              \<and> ChooseChoiceIndex branching_story r k = Inr (after k))
        \<and> branchStartLines ! k =
            (case currentDebugMetadata branching_story (after k) of
               None \<Rightarrow> Infinity
             | Some d \<Rightarrow>
                 if startLineNumber d \<noteq> 0 then Line (startLineNumber d) else Infinity))
    \<and> ((\<forall>t. LoadJson branching_story t savedState = Inr 1) \<longrightarrow>
         (\<forall>k < length [''X'', ''Y'']. ChooseChoiceIndex branching_story 1 k = Inr (after k)))
    \<and> 1 < length [''X'', ''Y'']
    \<and> (if \<exists>i < length [''X'', ''Y'']. \<exists>l. branchStartLines ! i = Line l \<and> l \<le> 9
        then (\<exists>l. branchStartLines ! 1 = Line l \<and> l \<le> 9)
           \<and> (\<forall>j l. 1 < j \<and> j < length [''X'', ''Y''] \<and> branchStartLines ! j = Line l
                 \<longrightarrow> 9 < l)
        else (1::nat) = 0)
    \<and> (\<forall>Ls. length Ls = length [''X'', ''Y'']
           \<and> (\<forall>k < length [''X'', ''Y''].
                  \<exists>d. currentDebugMetadata branching_story (after k) = Some d
                  \<and> startLineNumber d = Ls ! k)
           \<and> sorted_wrt (<) Ls \<and> (\<forall>k < length [''X'', ''Y'']. 0 < k \<longrightarrow> Ls ! k \<noteq> 0)
         \<longrightarrow> (\<forall>i < length [''X'', ''Y''].
                 Ls ! i \<le> 9 \<and> (Suc i < length [''X'', ''Y''] \<longrightarrow> 9 < Ls ! Suc i)
                 \<longrightarrow> 1 = i)
             \<and> (9 < Ls ! 0 \<longrightarrow> (1::nat) = 0))
    \<and> (\<forall>Ls i. branchStartLines = map Line Ls \<and> sorted_wrt (<) Ls \<and> i < length Ls
           \<and> Ls ! i \<le> 9 \<and> (Suc i < length Ls \<longrightarrow> 9 < Ls ! Suc i)
         \<longrightarrow> 1 = i)
    \<and> (\<forall>Ls. branchStartLines = map Line Ls \<and> sorted_wrt (<) Ls \<and> 9 < Ls ! 0
         \<longrightarrow> (1::nat) = 0))"
proof -
  have h1: "currentChoices branching_story 1 = Some [''X'', ''Y'']"
    by (simp add: branching_story_def)
  have h2: "2 \<le> length [''X'', ''Y'']" by simp
  have sel: "chooseBranchIndex branching_story 1 None c
      = Inr (if 8 \<le> c then 1 else 0, 1)" for c
    by (simp add: chooseBranchIndex_def branching_story_def state_ToJson_def story_state_def
        probe_branches.simps pick_branch.simps recorded_start_line_def at_line_def
        at_or_before_def)
  have h3: "chooseBranchIndex branching_story 1 None 9 = Inr (1, 1)"
    using sel [of 9] by simp
  have e6: "chooseBranchIndex branching_story 1 None 6 = Inr (0, 1)"
    using sel [of 6] by simp
  have e2: "chooseBranchIndex branching_story 1 None 2 = Inr (0, 1)"
    using sel [of 2] by simp
  have f1: "\<forall>t. LoadJson branching_story t ''#I'' = Inr 1"
    and f2: "ChooseChoiceIndex branching_story 1 0 = Inr 10"
    and f3: "ChooseChoiceIndex branching_story 1 1 = Inr 20"
    and f4: "currentDebugMetadata branching_story 10 = at_line 5"
    and f5: "currentDebugMetadata branching_story 20 = at_line 8"
    by (simp_all add: branching_story_def)
  have f6: "sorted_wrt (<) [5, 8 :: int]" by simp
  note c = chooseBranchIndex_picks_last_started [OF h1 h2 h3]
  show ?thesis
    by (rule conjI [OF h1 conjI [OF h2 conjI [OF h3 conjI [OF f1 conjI [OF f2 conjI [OF f3
          conjI [OF f4 conjI [OF f5 conjI [OF f6 conjI [OF e6 conjI [OF e2 c]]]]]]]]]]])
qed

section \<open>What probing leaves behind\<close>

lemma probe_branches_succeeds:
  assumes "\<forall>t. LoadJson E t saved = Inr s"
    and "\<forall>k < n. \<exists>t. ChooseChoiceIndex E s k = Inr t" and "i = 0 \<longrightarrow> s0 = s"
  shows "\<exists>ls s1. probe_branches E saved n i acc s0 = Inr (ls, s1)"
  using assms
proof (induction E saved n i acc s0 rule: probe_branches.induct)
  case (1 E saved n i acc s0)
  show ?case
  proof (cases "i < n")
    case True
    have sa: "(if 0 < i then LoadJson E s0 saved else Inr s0) = Inr s"
      using "1.prems"(1,3) by simp
    from "1.prems"(2) True obtain sb where b: "ChooseChoiceIndex E s i = Inr sb" by blast
    have triv: "i + 1 = 0 \<longrightarrow> sb = s" by simp
    from "1.IH" [OF True sa b "1.prems"(1,2) triv]
    obtain ls s1 where "probe_branches E saved n (i + 1)
        (acc @ [recorded_start_line (currentDebugMetadata E sb)]) sb = Inr (ls, s1)"
      by blast
    with True sa b show ?thesis by (subst probe_branches.simps) simp
  next
    case False
    then show ?thesis by (subst probe_branches.simps) simp
  qed
qed

text \<open>
  Claim C2, as the code has it. When the selector returns from a choice point with two or
  more choices, the story is what restoring the state saved before probing yields, which
  is the story before the call whenever restoring the saved state brings that story
  back; on such an engine, if every choice can be chosen, the selector does return. When
  an engine call throws during probing, the selector has no handler: the exception leaves
  it with the story as the failing call left it.
\<close>

theorem chooseBranchIndex_restores_on_return:
  assumes "currentChoices E s = Some choices" and "2 \<le> length choices"
    and "state_ToJson E s = Inr savedState"
  shows "(\<forall>idx s'. chooseBranchIndex E s cursorFilePath cursorLine = Inr (idx, s') \<longrightarrow>
            (\<exists>s1. LoadJson E s1 savedState = Inr s')
          \<and> ((\<forall>t. LoadJson E t savedState = Inr s) \<longrightarrow> s' = s))
     \<and> ((\<forall>t. LoadJson E t savedState = Inr s)
          \<and> (\<forall>k < length choices. \<exists>t. ChooseChoiceIndex E s k = Inr t) \<longrightarrow>
            (\<exists>idx. chooseBranchIndex E s cursorFilePath cursorLine = Inr (idx, s)))
     \<and> (\<forall>e t. probe_branches E savedState (length choices) 0 [] s = Inl (e, t) \<longrightarrow>
            chooseBranchIndex E s cursorFilePath cursorLine = Inl (e, t))"
proof (intro conjI allI impI)
  fix idx s'
  assume ret: "chooseBranchIndex E s cursorFilePath cursorLine = Inr (idx, s')"
  from chooseBranchIndex_returns [OF assms(1,2) ret] assms(3)
  obtain s1 where ld: "LoadJson E s1 savedState = Inr s'" by auto
  then show "\<exists>s1. LoadJson E s1 savedState = Inr s'" by blast
  show "s' = s" if "\<forall>t. LoadJson E t savedState = Inr s"
    using that ld by simp
next
  assume a: "(\<forall>t. LoadJson E t savedState = Inr s)
          \<and> (\<forall>k < length choices. \<exists>t. ChooseChoiceIndex E s k = Inr t)"
  then obtain ls s1 where
    "probe_branches E savedState (length choices) 0 [] s = Inr (ls, s1)"
    using probe_branches_succeeds [of E savedState s "length choices" 0 s "[]"] by auto
  with a assms(3) show "\<exists>idx. chooseBranchIndex E s cursorFilePath cursorLine = Inr (idx, s)"
    by (simp add: chooseBranchIndex_probing [OF assms(1,2)])
next
  fix e t
  assume "probe_branches E savedState (length choices) 0 [] s = Inl (e, t)"
  with assms(3) show "chooseBranchIndex E s cursorFilePath cursorLine = Inl (e, t)"
    by (simp add: chooseBranchIndex_probing [OF assms(1,2)])
qed

theorem chooseBranchIndex_restores_on_return_witness:
  "currentChoices branching_story 1 = Some [''X'', ''Y'']
   \<and> 2 \<le> length [''X'', ''Y'']
   \<and> state_ToJson branching_story 1 = Inr ''#I''
   \<and> chooseBranchIndex branching_story 1 None 6 = Inr (0, 1)
   \<and> (\<forall>t. LoadJson branching_story t ''#I'' = Inr 1)
   \<and> (\<exists>t. ChooseChoiceIndex branching_story 1 0 = Inr t)
   \<and> (\<exists>t. ChooseChoiceIndex branching_story 1 1 = Inr t)
   \<and> (\<exists>s1. LoadJson branching_story s1 ''#I'' = Inr 1)
   \<and> (\<exists>idx. chooseBranchIndex branching_story 1 None 6 = Inr (idx, 1))"
proof -
  have h1: "currentChoices branching_story 1 = Some [''X'', ''Y'']"
    by (simp add: branching_story_def)
  have h2: "2 \<le> length [''X'', ''Y'']" by simp
  have h3: "state_ToJson branching_story 1 = Inr ''#I''"
    by (simp add: branching_story_def state_ToJson_def story_state_def)
  have h4: "chooseBranchIndex branching_story 1 None 6 = Inr (0, 1)"
    by (simp add: chooseBranchIndex_def branching_story_def state_ToJson_def story_state_def
        probe_branches.simps pick_branch.simps recorded_start_line_def at_line_def
        at_or_before_def)
  have h5: "\<forall>t. LoadJson branching_story t ''#I'' = Inr 1"
    by (simp add: branching_story_def)
  have h6: "\<exists>t. ChooseChoiceIndex branching_story 1 0 = Inr t"
    and h7: "\<exists>t. ChooseChoiceIndex branching_story 1 1 = Inr t"
    by (simp_all add: branching_story_def)
  note c = chooseBranchIndex_restores_on_return [OF h1 h2 h3, of None 6]
  have c1: "\<exists>s1. LoadJson branching_story s1 ''#I'' = Inr 1"
    using c h4 by blast
  have "\<forall>k < length [''X'', ''Y'']. \<exists>t. ChooseChoiceIndex branching_story 1 k = Inr t"
    using h6 h7 by (simp add: less_Suc_eq)
  with c h5 have c2: "\<exists>idx. chooseBranchIndex branching_story 1 None 6 = Inr (idx, 1)"
    by blast
  from h1 h2 h3 h4 h5 h6 h7 c1 c2 show ?thesis by (intro conjI)
qed

text \<open>
  Claim C2 as stated fails: on an engine whose second choice throws after moving, the
  selector exits by that exception and the caller holds the story at position 20, not the
  story at position 1 that was saved before probing.
\<close>

theorem chooseBranchIndex_exception_leaves_probe_state:
  "currentChoices failing_story 1 = Some [''X'', ''Y'']
   \<and> state_ToJson failing_story 1 = Inr ''#I''
   \<and> chooseBranchIndex failing_story 1 None 6 = Inl (Exn (Some ''choice failed'') ''Error'', 20)
   \<and> (20::nat) \<noteq> 1"
  by (simp add: chooseBranchIndex_def failing_story_def branching_story_def state_ToJson_def
      story_state_def probe_branches.simps recorded_start_line_def at_line_def)

section \<open>The variable snapshotter\<close>

text \<open>
  Claim C6, as the code has it. The snapshotter has no exceptional result. The variables it
  reads are those that the serialised state lists under \<^verbatim>\<open>variablesState\<close>. When the state
  can be serialised and parsed and lists no variable named \<^verbatim>\<open>__proto__\<close>, the snapshot
  holds exactly the listed variables whose read succeeds, each with its coerced value: a
  listed variable whose read throws is left out and takes no other listed variable with
  it, and a variable that is not listed does not appear, readable or not. When the state
  object cannot be reached (reading it throws, it is absent, serialising or parsing throws,
  or the variables object cannot be read) the snapshot is empty.
\<close>

theorem snapshotVariablesState_skips_unreadable:
  assumes "state E s = Inr (Some st)" and "state_json st = Inr (Some jsonStr)"
    and "jsonStr \<noteq> []" and "JSON_parse jsonStr = Inr stateObj"
    and "member_variablesState (type_error E s ''stateObj.variablesState'') stateObj
           = Inr (Some vs)"
    and "is_object (Some vs)"
    and "variablesState E s = Inr (Variables_state (Some getVarWithName))"
    and "''__proto__'' \<notin> set (Object_keys vs)"
  shows "(\<forall>name. map_of (snapshotVariablesState JSON_parse E s) name =
            (if name \<in> set (Object_keys vs) then read_value getVarWithName name else None))
     \<and> (\<forall>name \<in> set (Object_keys vs). read_value getVarWithName name = None \<longrightarrow>
            name \<notin> fst ` set (snapshotVariablesState JSON_parse E s))
     \<and> (\<forall>name \<in> set (Object_keys vs). \<forall>v. read_value getVarWithName name = Some v \<longrightarrow>
            (name, v) \<in> set (snapshotVariablesState JSON_parse E s))
     \<and> (\<forall>name. name \<notin> set (Object_keys vs) \<longrightarrow>
            name \<notin> fst ` set (snapshotVariablesState JSON_parse E s))
     \<and> snapshotVariablesState JSON_parse (E\<lparr>state := (\<lambda>s. Inl e)\<rparr>) s = []
     \<and> snapshotVariablesState JSON_parse (E\<lparr>state := (\<lambda>s. Inr None)\<rparr>) s = []
     \<and> snapshotVariablesState JSON_parse
          (E\<lparr>state := (\<lambda>s. Inr (Some (State_object (Some (Inl e)) alt)))\<rparr>) s = []
     \<and> snapshotVariablesState (\<lambda>j. Inl e) E s = []
     \<and> snapshotVariablesState JSON_parse (E\<lparr>variablesState := (\<lambda>s. Inl e)\<rparr>) s = []"
proof -
  have m: "map_of (snapshotVariablesState JSON_parse E s) name =
            (if name \<in> set (Object_keys vs) then read_value getVarWithName name else None)"
    for name
    using assms
    by (auto simp: snapshotVariablesState_def truthy_def map_of_snapshot_loop)
  have absent: "name \<notin> fst ` set (snapshotVariablesState JSON_parse E s)"
    if "read_value getVarWithName name = None" for name
    using m [of name] that by (simp add: map_of_eq_None_iff split: if_splits)
  have present: "(name, v) \<in> set (snapshotVariablesState JSON_parse E s)"
    if "name \<in> set (Object_keys vs)" "read_value getVarWithName name = Some v" for name v
    using m [of name] that by (simp add: map_of_SomeD)
  have unlisted: "name \<notin> fst ` set (snapshotVariablesState JSON_parse E s)"
    if "name \<notin> set (Object_keys vs)" for name
    using m [of name] that by (simp add: map_of_eq_None_iff)
  have e1: "snapshotVariablesState JSON_parse (E\<lparr>state := (\<lambda>s. Inl e)\<rparr>) s = []"
    and e2: "snapshotVariablesState JSON_parse (E\<lparr>state := (\<lambda>s. Inr None)\<rparr>) s = []"
    and e3: "snapshotVariablesState JSON_parse
          (E\<lparr>state := (\<lambda>s. Inr (Some (State_object (Some (Inl e)) alt)))\<rparr>) s = []"
    and e4: "snapshotVariablesState (\<lambda>j. Inl e) E s = []"
    and e5: "snapshotVariablesState JSON_parse (E\<lparr>variablesState := (\<lambda>s. Inl e)\<rparr>) s = []"
    by (auto simp: snapshotVariablesState_def state_json_def
        split: sum.splits option.splits variables_state.splits)
  from m absent present unlisted e1 e2 e3 e4 e5 show ?thesis by blast
qed

theorem snapshotVariablesState_skips_unreadable_witness:
  "state fragile_story 0 = Inr (Some (State_object (Some (Inr ''#'')) None))
   \<and> state_json (State_object (Some (Inr ''#'')) None) = Inr (Some ''#'')
   \<and> ''#'' \<noteq> []
   \<and> fragile_parse ''#'' = Inr (JObj [(''variablesState'',
         JObj [(''broken'', JNum 0), (''x'', JNum 0), (''y'', JStr [])])])
   \<and> member_variablesState (type_error fragile_story 0 ''stateObj.variablesState'')
         (JObj [(''variablesState'',
            JObj [(''broken'', JNum 0), (''x'', JNum 0), (''y'', JStr [])])])
       = Inr (Some (JObj [(''broken'', JNum 0), (''x'', JNum 0), (''y'', JStr [])]))
   \<and> is_object (Some (JObj [(''broken'', JNum 0), (''x'', JNum 0), (''y'', JStr [])]))
   \<and> variablesState fragile_story 0 = Inr (Variables_state (Some fragile_getter))
   \<and> ''__proto__'' \<notin> set (Object_keys
         (JObj [(''broken'', JNum 0), (''x'', JNum 0), (''y'', JStr [])]))
   \<and> read_value fragile_getter ''broken'' = None
   \<and> ''broken'' \<notin> fst ` set (snapshotVariablesState fragile_parse fragile_story 0)
   \<and> (''x'', JSNumber 1) \<in> set (snapshotVariablesState fragile_parse fragile_story 0)
   \<and> (''y'', JSString ''bg'') \<in> set (snapshotVariablesState fragile_parse fragile_story 0)
   \<and> ''untouched'' \<notin> fst ` set (snapshotVariablesState fragile_parse fragile_story 0)"
proof -
  let ?vs = "JObj [(''broken'', JNum 0), (''x'', JNum 0), (''y'', JStr [])]"
  have h1: "state fragile_story 0 = Inr (Some (State_object (Some (Inr ''#'')) None))"
    by (simp add: fragile_story_def linear_story_def story_state_def)
  have h2: "state_json (State_object (Some (Inr ''#'')) None) = Inr (Some ''#'')"
    by (simp add: state_json_def)
  have h3: "''#'' \<noteq> []" by simp
  have h4: "fragile_parse ''#'' = Inr (JObj [(''variablesState'', ?vs)])"
    by (simp add: fragile_parse_def)
  have h5: "member_variablesState (type_error fragile_story 0 ''stateObj.variablesState'')
      (JObj [(''variablesState'', ?vs)]) = Inr (Some ?vs)"
    by (simp add: member_variablesState_def)
  have h6: "is_object (Some ?vs)" by (simp add: is_object_def)
  have h7: "variablesState fragile_story 0 = Inr (Variables_state (Some fragile_getter))"
    by (simp add: fragile_story_def)
  have keys: "set (Object_keys ?vs) = {''broken'', ''x'', ''y''}"
    by (auto simp: Object_keys_def)
  have h8: "''__proto__'' \<notin> set (Object_keys ?vs)"
    unfolding keys by simp
  have un: "''untouched'' \<notin> set (Object_keys ?vs)"
    unfolding keys by simp
  have r1: "read_value fragile_getter ''broken'' = None"
    and r2: "read_value fragile_getter ''x'' = Some (JSNumber 1)"
    and r3: "read_value fragile_getter ''y'' = Some (JSString ''bg'')"
    by (simp_all add: read_value_def fragile_getter_def coerceValue_def)
  note c = snapshotVariablesState_skips_unreadable
    [where JSON_parse = fragile_parse and jsonStr = "''#''", OF h1 h2 h3 h4 h5 h6 h7 h8]
  have c1: "''broken'' \<notin> fst ` set (snapshotVariablesState fragile_parse fragile_story 0)"
    using c keys r1 by blast
  have c2: "(''x'', JSNumber 1) \<in> set (snapshotVariablesState fragile_parse fragile_story 0)"
    using c keys r2 by blast
  have c3: "(''y'', JSString ''bg'') \<in> set (snapshotVariablesState fragile_parse fragile_story 0)"
    using c keys r3 by blast
  have c4: "''untouched'' \<notin> fst ` set (snapshotVariablesState fragile_parse fragile_story 0)"
    using c un by blast
  from h1 h2 h3 h4 h5 h6 h7 h8 r1 c1 c2 c3 c4 show ?thesis by (intro conjI)
qed

text \<open>
  Claim C6 as stated fails: in this story the read of \<open>broken\<close> throws, and the variable
  \<open>untouched\<close> is another variable that can be read; the serialised state does not list it,
  and the snapshot, which holds \<open>x\<close> and \<open>y\<close>, does not hold it.
\<close>

theorem snapshotVariablesState_omits_unlisted_variable:
  "read_value fragile_getter ''broken'' = None
   \<and> read_value fragile_getter ''untouched'' = Some (JSString ''bg'')
   \<and> snapshotVariablesState fragile_parse fragile_story 0
       = [(''x'', JSNumber 1), (''y'', JSString ''bg'')]"
  by (simp add: read_value_def fragile_getter_def coerceValue_def snapshotVariablesState_def
      fragile_story_def linear_story_def story_state_def state_json_def truthy_def
      fragile_parse_def member_variablesState_def is_object_def Object_keys_def
      read_variable_def obj_set_def)

text \<open>
  A listed variable named \<^verbatim>\<open>__proto__\<close> is lost in the same way although it can be read:
  the assignment stores no property. Here its value is a string, which leaves the
  snapshot's prototype as it was.
\<close>

lemma snapshotVariablesState_drops_proto_name:
  "read_value fragile_getter ''__proto__'' = Some (JSString ''bg'')
   \<and> snapshotVariablesState proto_parse fragile_story 0 = [(''x'', JSNumber 1)]"
  by (simp add: read_value_def fragile_getter_def coerceValue_def snapshotVariablesState_def
      fragile_story_def linear_story_def story_state_def state_json_def truthy_def
      proto_parse_def member_variablesState_def is_object_def Object_keys_def
      read_variable_def obj_set_def)

section \<open>The driver's step ceiling\<close>

lemma runToCursor_loop_steps_bound:
  "steps \<le> MAX_STEPS \<Longrightarrow>
     snd (runToCursor_loop JSON_parse E cursorFilePath cursorLine steps s lastVars) \<le> MAX_STEPS"
proof (induction JSON_parse E cursorFilePath cursorLine steps s lastVars
    rule: runToCursor_loop.induct)
  case (1 JSON_parse E cursorFilePath cursorLine steps s lastVars)
  show ?case
  proof (cases "steps < MAX_STEPS")
    case True
    then have next_ok: "steps + 1 \<le> MAX_STEPS" by simp
    show ?thesis
    proof (cases "canContinue E s")
      case can: True
      show ?thesis
      proof (cases "Continue E s")
        case (Inl x)
        with True can next_ok show ?thesis
          by (subst runToCursor_loop.simps) (simp add: Let_def)
      next
        case (Inr s1)
        show ?thesis
        proof (cases "reached (getCurrentLine E s1 cursorFilePath) cursorLine")
          case hit: True
          with True can Inr next_ok show ?thesis
            by (subst runToCursor_loop.simps) (simp add: Let_def)
        next
          case miss: False
          from "1.IH"(1) [OF True can refl Inr miss next_ok] True can Inr miss
          show ?thesis by (subst runToCursor_loop.simps) (simp add: Let_def)
        qed
      qed
    next
      case cannot: False
      show ?thesis
      proof (cases "has_choices E s")
        case ch: True
        show ?thesis
        proof (cases "chooseBranchIndex E s cursorFilePath cursorLine")
          case (Inl x)
          with True cannot ch next_ok show ?thesis
            by (subst runToCursor_loop.simps) simp
        next
          case (Inr p)
          obtain idx s1 where p: "p = (idx, s1)" by (cases p)
          show ?thesis
          proof (cases "ChooseChoiceIndex E s1 idx")
            case (Inl x)
            with True cannot ch Inr p next_ok show ?thesis
              by (subst runToCursor_loop.simps) simp
          next
            case s2: (Inr s2)
            from "1.IH"(2) [OF True cannot ch Inr [unfolded p] refl s2 next_ok]
              True cannot ch Inr p s2
            show ?thesis by (subst runToCursor_loop.simps) simp
          qed
        qed
      next
        case False
        with True cannot next_ok show ?thesis
          by (subst runToCursor_loop.simps) simp
      qed
    qed
  next
    case False
    with "1.prems" show ?thesis by (subst runToCursor_loop.simps) simp
  qed
qed

lemma runToCursor_loop_run:
  assumes "\<forall>k < n. canContinue E ((advance E ^^ k) s)
             \<and> (\<exists>t. Continue E ((advance E ^^ k) s) = Inr t)
             \<and> \<not> reached (getCurrentLine E ((advance E ^^ Suc k) s) cursorFilePath) cursorLine"
    and "steps + n \<le> MAX_STEPS"
  shows "runToCursor_loop JSON_parse E cursorFilePath cursorLine steps s lastVars =
     runToCursor_loop JSON_parse E cursorFilePath cursorLine (steps + n) ((advance E ^^ n) s)
       (if n = 0 then lastVars else snapshotVariablesState JSON_parse E ((advance E ^^ n) s))"
  using assms
proof (induction n arbitrary: steps s lastVars)
  case 0
  then show ?case by simp
next
  case (Suc n)
  from Suc.prems(1) have can: "canContinue E s"
    and "\<exists>t. Continue E s = Inr t"
    and miss: "\<not> reached (getCurrentLine E (advance E s) cursorFilePath) cursorLine"
    by (auto dest: spec [where x = 0])
  then obtain t where t: "Continue E s = Inr t" by blast
  then have adv: "advance E s = t" by (simp add: advance_def)
  have lt: "steps < MAX_STEPS" using Suc.prems(2) by simp
  have first: "runToCursor_loop JSON_parse E cursorFilePath cursorLine steps s lastVars =
      runToCursor_loop JSON_parse E cursorFilePath cursorLine (steps + 1) t
        (snapshotVariablesState JSON_parse E t)"
    using lt can t miss adv
    by (subst runToCursor_loop.simps) (simp add: Let_def)
  have rest: "\<forall>k < n. canContinue E ((advance E ^^ k) t)
             \<and> (\<exists>u. Continue E ((advance E ^^ k) t) = Inr u)
             \<and> \<not> reached (getCurrentLine E ((advance E ^^ Suc k) t) cursorFilePath) cursorLine"
  proof (intro allI impI)
    fix k assume "k < n"
    then have "Suc k < Suc n" by simp
    with Suc.prems(1) have "canContinue E ((advance E ^^ Suc k) s)
             \<and> (\<exists>u. Continue E ((advance E ^^ Suc k) s) = Inr u)
             \<and> \<not> reached (getCurrentLine E ((advance E ^^ Suc (Suc k)) s) cursorFilePath)
                   cursorLine"
      by blast
    then show "canContinue E ((advance E ^^ k) t)
             \<and> (\<exists>u. Continue E ((advance E ^^ k) t) = Inr u)
             \<and> \<not> reached (getCurrentLine E ((advance E ^^ Suc k) t) cursorFilePath) cursorLine"
      by (simp add: funpow_swap1 adv del: funpow.simps add: funpow_Suc_right)
  qed
  have budget: "(steps + 1) + n \<le> MAX_STEPS" using Suc.prems(2) by simp
  have shift: "(advance E ^^ n) t = (advance E ^^ Suc n) s"
    by (simp add: funpow_swap1 adv)
  from Suc.IH [OF rest budget, of "snapshotVariablesState JSON_parse E t"]
  have "runToCursor_loop JSON_parse E cursorFilePath cursorLine (steps + 1) t
        (snapshotVariablesState JSON_parse E t) =
     runToCursor_loop JSON_parse E cursorFilePath cursorLine (steps + 1 + n)
       ((advance E ^^ n) t)
       (if n = 0 then snapshotVariablesState JSON_parse E t
        else snapshotVariablesState JSON_parse E ((advance E ^^ n) t))" .
  also have "(if n = 0 then snapshotVariablesState JSON_parse E t
        else snapshotVariablesState JSON_parse E ((advance E ^^ n) t))
      = snapshotVariablesState JSON_parse E ((advance E ^^ n) t)"
    by simp
  finally show ?case
    unfolding first shift by (simp add: add.commute add.left_commute)
qed


lemma runToCursor_loop_exhausted:
  "MAX_STEPS \<le> steps \<Longrightarrow>
     runToCursor_loop JSON_parse E cursorFilePath cursorLine steps s lastVars
       = (Inr (lastVars, s), steps)"
  by (subst runToCursor_loop.simps) simp

lemma runToCursor_ceiling:
  assumes "\<forall>k < MAX_STEPS. canContinue E ((advance E ^^ k) s)
             \<and> (\<exists>t. Continue E ((advance E ^^ k) s) = Inr t)
             \<and> \<not> reached (getCurrentLine E ((advance E ^^ Suc k) s) cursorFilePath) cursorLine"
  shows "runToCursor JSON_parse E s cursorFilePath cursorLine =
     Inr (snapshotVariablesState JSON_parse E ((advance E ^^ MAX_STEPS) s),
          (advance E ^^ MAX_STEPS) s)"
proof -
  have "0 + MAX_STEPS \<le> MAX_STEPS" by simp
  from runToCursor_loop_run [OF assms this]
  show ?thesis
    by (simp add: runToCursor_def runToCursor_loop_exhausted MAX_STEPS_def)
qed

text \<open>
  Claim C5. The driver's loop is defined by a terminating recursion, so it returns for
  every story. It begins at most 10000 iterations. When the counter has reached the
  ceiling the loop returns the fallback snapshot, a regular result. In particular, on a
  story that can always continue and never reaches the cursor, the driver returns the
  snapshot taken after the 10000th step, and the evaluation service displays it rather
  than an error.
\<close>

theorem runToCursor_step_ceiling:
  "MAX_STEPS = 10000
   \<and> snd (runToCursor_loop JSON_parse E cursorFilePath cursorLine 0 s lastVars) \<le> MAX_STEPS
   \<and> runToCursor_loop JSON_parse E cursorFilePath cursorLine MAX_STEPS s lastVars
        = (Inr (lastVars, s), MAX_STEPS)
   \<and> ((\<forall>k < MAX_STEPS. canContinue E ((advance E ^^ k) s)
             \<and> (\<exists>t. Continue E ((advance E ^^ k) s) = Inr t)
             \<and> \<not> reached (getCurrentLine E ((advance E ^^ Suc k) s) cursorFilePath) cursorLine)
        \<longrightarrow> runToCursor JSON_parse E s cursorFilePath cursorLine =
              Inr (snapshotVariablesState JSON_parse E ((advance E ^^ MAX_STEPS) s),
                   (advance E ^^ MAX_STEPS) s)
          \<and> (\<forall>p main errors story.
                mainInk p = Some main
              \<and> Compile (getValue main) (relativePath main) (buildFileHierarchy p)
                  = Inr (errors, story)
              \<and> (errors = None \<or> errors = Some []) \<and> onError_noop E story = s
              \<longrightarrow> evaluateAtLine JSON_parse Compile E cursorLine cursorFilePath (Some p) =
                    [UpdateScene
                       (snapshotVariablesState JSON_parse E ((advance E ^^ MAX_STEPS) s))]))"
proof (intro conjI impI allI)
  show "MAX_STEPS = 10000" by (simp add: MAX_STEPS_def)
  show "snd (runToCursor_loop JSON_parse E cursorFilePath cursorLine 0 s lastVars) \<le> MAX_STEPS"
    by (rule runToCursor_loop_steps_bound) simp
  show "runToCursor_loop JSON_parse E cursorFilePath cursorLine MAX_STEPS s lastVars
        = (Inr (lastVars, s), MAX_STEPS)"
    by (rule runToCursor_loop_exhausted) simp
next
  assume a: "\<forall>k < MAX_STEPS. canContinue E ((advance E ^^ k) s)
             \<and> (\<exists>t. Continue E ((advance E ^^ k) s) = Inr t)
             \<and> \<not> reached (getCurrentLine E ((advance E ^^ Suc k) s) cursorFilePath) cursorLine"
  show r: "runToCursor JSON_parse E s cursorFilePath cursorLine =
              Inr (snapshotVariablesState JSON_parse E ((advance E ^^ MAX_STEPS) s),
                   (advance E ^^ MAX_STEPS) s)"
    by (rule runToCursor_ceiling [OF a])
  fix p main errors story
  assume "mainInk p = Some main
              \<and> Compile (getValue main) (relativePath main) (buildFileHierarchy p)
                  = Inr (errors, story)
              \<and> (errors = None \<or> errors = Some []) \<and> onError_noop E story = s"
  then show "evaluateAtLine JSON_parse Compile E cursorLine cursorFilePath (Some p) =
                    [UpdateScene
                       (snapshotVariablesState JSON_parse E ((advance E ^^ MAX_STEPS) s))]"
    using r by (auto simp: evaluateAtLine_def)
qed

theorem runToCursor_step_ceiling_witness:
  "(\<forall>t. canContinue looping_story t)
   \<and> (\<forall>t. \<exists>u. Continue looping_story t = Inr u)
   \<and> (\<forall>t. \<not> reached (getCurrentLine looping_story t None) 5)
   \<and> mainInk one_file_project = Some main_file
   \<and> story_compiler (getValue main_file) (relativePath main_file)
        (buildFileHierarchy one_file_project) = Inr (Some [], 0)
   \<and> onError_noop looping_story 0 = 0
   \<and> runToCursor story_parse looping_story 0 None 5 =
        Inr (snapshotVariablesState story_parse looping_story
               ((advance looping_story ^^ MAX_STEPS) 0),
             (advance looping_story ^^ MAX_STEPS) 0)
   \<and> evaluateAtLine story_parse story_compiler looping_story 5 None (Some one_file_project) =
        [UpdateScene (snapshotVariablesState story_parse looping_story
               ((advance looping_story ^^ MAX_STEPS) 0))]"
proof -
  have h1: "canContinue looping_story t" for t
    by (simp add: looping_story_def)
  have h2: "\<exists>u. Continue looping_story t = Inr u" for t
    by (simp add: looping_story_def linear_story_def)
  have h3: "\<not> reached (getCurrentLine looping_story t None) 5" for t
    by (simp add: looping_story_def reached_def getCurrentLine_def at_line_def)
  have h4: "mainInk one_file_project = Some main_file"
    by (simp add: one_file_project_def)
  have h5: "story_compiler (getValue main_file) (relativePath main_file)
        (buildFileHierarchy one_file_project) = Inr (Some [], 0)"
    by (simp add: story_compiler_def)
  have h6: "onError_noop looping_story 0 = 0"
    by (simp add: looping_story_def linear_story_def)
  have a: "\<forall>k < MAX_STEPS. canContinue looping_story ((advance looping_story ^^ k) 0)
             \<and> (\<exists>t. Continue looping_story ((advance looping_story ^^ k) 0) = Inr t)
             \<and> \<not> reached (getCurrentLine looping_story
                           ((advance looping_story ^^ Suc k) 0) None) 5"
    using h1 h2 h3 by blast
  note c = runToCursor_step_ceiling [where E = looping_story and s = 0 and cursorFilePath = None
      and cursorLine = 5 and JSON_parse = story_parse and Compile = story_compiler]
  have c1: "runToCursor story_parse looping_story 0 None 5 =
        Inr (snapshotVariablesState story_parse looping_story
               ((advance looping_story ^^ MAX_STEPS) 0),
             (advance looping_story ^^ MAX_STEPS) 0)"
    using c a by blast
  have c2: "evaluateAtLine story_parse story_compiler looping_story 5 None
        (Some one_file_project) =
        [UpdateScene (snapshotVariablesState story_parse looping_story
               ((advance looping_story ^^ MAX_STEPS) 0))]"
    using c a h4 h5 h6 by blast
  show ?thesis
    using h1 h2 h3 h4 h5 h6 c1 c2 by (intro conjI allI impI)
qed

section \<open>Scripts without choice points\<close>

text \<open>
  Claim C4, as the code has it. On a story that is never at a choice point and whose
  steps do not throw, let the first \<open>n\<close> steps, at most 10000, each leave a location that
  fails the stopping test. If the next step is within the ceiling and leaves a location
  that passes the test (it exists, passes the file-identity check and starts at or after
  the cursor line), the driver returns the snapshot of the story after that step. If
  instead the story cannot continue after the \<open>n\<close> steps, it returns the snapshot of that
  final state. If \<open>n\<close> is the ceiling, it returns the snapshot after the last step made.
\<close>

theorem runToCursor_without_choices:
  assumes "\<forall>t. \<not> has_choices E t" and "n \<le> MAX_STEPS"
    and "\<forall>k < n. canContinue E ((advance E ^^ k) s)
           \<and> (\<exists>t. Continue E ((advance E ^^ k) s) = Inr t)
           \<and> \<not> reached (getCurrentLine E ((advance E ^^ Suc k) s) cursorFilePath) cursorLine"
  shows "(n < MAX_STEPS \<and> canContinue E ((advance E ^^ n) s)
            \<and> (\<exists>t. Continue E ((advance E ^^ n) s) = Inr t)
            \<and> reached (getCurrentLine E ((advance E ^^ Suc n) s) cursorFilePath) cursorLine
          \<longrightarrow> runToCursor JSON_parse E s cursorFilePath cursorLine =
                Inr (snapshotVariablesState JSON_parse E ((advance E ^^ Suc n) s),
                     (advance E ^^ Suc n) s))
     \<and> (n < MAX_STEPS \<and> \<not> canContinue E ((advance E ^^ n) s)
          \<longrightarrow> runToCursor JSON_parse E s cursorFilePath cursorLine =
                Inr (snapshotVariablesState JSON_parse E ((advance E ^^ n) s),
                     (advance E ^^ n) s))
     \<and> (n = MAX_STEPS
          \<longrightarrow> runToCursor JSON_parse E s cursorFilePath cursorLine =
                Inr (snapshotVariablesState JSON_parse E ((advance E ^^ n) s),
                     (advance E ^^ n) s))"
proof -
  let ?sn = "(advance E ^^ n) s"
  let ?lv = "if n = 0 then snapshotVariablesState JSON_parse E s
             else snapshotVariablesState JSON_parse E ?sn"
  have "0 + n \<le> MAX_STEPS" using assms(2) by simp
  from runToCursor_loop_run [OF assms(3) this]
  have run: "runToCursor JSON_parse E s cursorFilePath cursorLine =
      fst (runToCursor_loop JSON_parse E cursorFilePath cursorLine n ?sn ?lv)"
    by (simp add: runToCursor_def)
  have stop: "runToCursor JSON_parse E s cursorFilePath cursorLine =
                Inr (snapshotVariablesState JSON_parse E ((advance E ^^ Suc n) s),
                     (advance E ^^ Suc n) s)"
    if "n < MAX_STEPS" "canContinue E ?sn" "\<exists>t. Continue E ?sn = Inr t"
      "reached (getCurrentLine E ((advance E ^^ Suc n) s) cursorFilePath) cursorLine"
  proof -
    from that(3) obtain t where t: "Continue E ?sn = Inr t" by blast
    then have "(advance E ^^ Suc n) s = t" by (simp add: advance_def)
    with that t show ?thesis
      unfolding run by (subst runToCursor_loop.simps) (simp add: Let_def)
  qed
  have finished: "runToCursor JSON_parse E s cursorFilePath cursorLine =
                Inr (snapshotVariablesState JSON_parse E ?sn, ?sn)"
    if "n < MAX_STEPS" "\<not> canContinue E ?sn"
    using that assms(1)
    unfolding run by (subst runToCursor_loop.simps) simp
  have ceiling: "runToCursor JSON_parse E s cursorFilePath cursorLine =
                Inr (snapshotVariablesState JSON_parse E ?sn, ?sn)"
    if "n = MAX_STEPS"
    using that unfolding run
    by (simp add: runToCursor_loop_exhausted MAX_STEPS_def)
  from stop finished ceiling show ?thesis by blast
qed

theorem runToCursor_without_choices_witness:
  "(\<forall>t. \<not> has_choices linear_story t)
   \<and> (\<forall>k. (advance linear_story ^^ k) 0 = k)
   \<and> (\<forall>t. canContinue linear_story t = (t < 3))
   \<and> (\<forall>t. Continue linear_story t = Inr (Suc t))
   \<and> (\<forall>t c. reached (getCurrentLine linear_story (Suc t) None) c = (c \<le> int (Suc t)))
   \<and> runToCursor story_parse linear_story 0 None 2 =
        Inr (snapshotVariablesState story_parse linear_story 2, 2)
   \<and> runToCursor story_parse linear_story 0 None 9 =
        Inr (snapshotVariablesState story_parse linear_story 3, 3)"
proof -
  have pos: "(advance linear_story ^^ k) 0 = k" for k
    by (induction k) (simp_all add: advance_def linear_story_def)
  have h0: "\<forall>t. \<not> has_choices linear_story t"
    by (simp add: has_choices_def linear_story_def)
  have can: "canContinue linear_story t = (t < 3)" for t
    by (simp add: linear_story_def)
  have cont: "Continue linear_story t = Inr (Suc t)" for t
    by (simp add: linear_story_def)
  have hit: "reached (getCurrentLine linear_story (Suc t) None) c = (c \<le> int (Suc t))" for t c
    by (simp add: reached_def getCurrentLine_def linear_story_def at_line_def
        fileMatchesCursor_def or_else_def truthy_def)
  have a: "\<forall>k < n. canContinue linear_story ((advance linear_story ^^ k) 0)
           \<and> (\<exists>t. Continue linear_story ((advance linear_story ^^ k) 0) = Inr t)
           \<and> \<not> reached (getCurrentLine linear_story ((advance linear_story ^^ Suc k) 0) None) c"
    if "n \<le> 3" "int n < c" for n c
    unfolding pos can cont hit using that by auto
  have b1: "(1::nat) \<le> MAX_STEPS" and b3: "(3::nat) \<le> MAX_STEPS"
    by (simp_all add: MAX_STEPS_def)
  have r1: "runToCursor story_parse linear_story 0 None 2 =
        Inr (snapshotVariablesState story_parse linear_story 2, 2)"
    using runToCursor_without_choices [OF h0 b1 a [of 1 2], where JSON_parse = story_parse]
    unfolding pos can cont hit by (simp add: MAX_STEPS_def eval_nat_numeral)
  have r3: "runToCursor story_parse linear_story 0 None 9 =
        Inr (snapshotVariablesState story_parse linear_story 3, 3)"
    using runToCursor_without_choices [OF h0 b3 a [of 3 9], where JSON_parse = story_parse]
    unfolding pos can cont hit by (simp add: MAX_STEPS_def)
  from h0 pos can cont hit r1 r3 show ?thesis by blast
qed

text \<open>
  Claim C4 as stated fails: with the cursor on line 2 of the three-line script, the first
  location at or after the cursor is met by the second step; the engine holds \<open>x = 1\<close>
  immediately before it, and the driver returns \<open>x = 2\<close>, the state after that step.
\<close>

theorem runToCursor_returns_state_after_step:
  "runToCursor story_parse linear_story 0 None 2 = Inr ([(''x'', JSNumber 2)], 2)
   \<and> spec_snapshot_before_cursor story_parse linear_story 2 MAX_STEPS 0 = [(''x'', JSNumber 1)]"
  by (simp add: runToCursor_def runToCursor_loop.simps MAX_STEPS_def linear_story_def
      snapshotVariablesState_def story_state_def state_json_def truthy_def story_parse_def
      member_variablesState_def is_object_def story_variables_def Object_keys_def
      read_variable_def obj_set_def coerceValue_def reached_def getCurrentLine_def at_line_def
      fileMatchesCursor_def or_else_def advance_def eval_nat_numeral)

section \<open>The cleared result\<close>

text \<open>
  Claim C8, as the code has it. With no project, and with a project that has no main ink
  file, \<^verbatim>\<open>evaluateAtLine\<close> calls \<^verbatim>\<open>SceneView.clear\<close> and nothing else, whatever the
  compiler and the engine would do. With no project, and with a project that has no
  active ink file, \<^verbatim>\<open>evaluateAtCursorDebounced\<close> cancels the pending timeout, calls
  \<^verbatim>\<open>SceneView.clear\<close> and schedules nothing, so that no evaluation follows from the
  request.
\<close>

theorem evaluation_cleared_without_project:
  "evaluateAtLine JSON_parse Compile E cursorLine cursorFilePath None = [Clear]
   \<and> (mainInk p = None \<longrightarrow>
        evaluateAtLine JSON_parse Compile E cursorLine cursorFilePath (Some p) = [Clear])
   \<and> evaluateAtCursorDebounced cursorLine None st =
        (case debounceTimer st of Some h \<Rightarrow> clearTimeout h st | None \<Rightarrow> st)
          \<lparr>scene_calls := scene_calls st @ [Clear]\<rparr>
   \<and> (activeInkFile p = None \<longrightarrow>
        evaluateAtCursorDebounced cursorLine (Some p) st =
          (case debounceTimer st of Some h \<Rightarrow> clearTimeout h st | None \<Rightarrow> st)
            \<lparr>scene_calls := scene_calls st @ [Clear]\<rparr>)
   \<and> (proj = None \<or> (\<exists>q. proj = Some q \<and> activeInkFile q = None) \<longrightarrow>
        scene_calls (evaluateAtCursorDebounced cursorLine proj st) = scene_calls st @ [Clear]
      \<and> set (pending (evaluateAtCursorDebounced cursorLine proj st)) \<subseteq> set (pending st))"
  by (auto simp: evaluateAtLine_def evaluateAtCursorDebounced_def clearTimeout_def Let_def
      split: option.splits)

theorem evaluation_cleared_without_project_witness:
  "mainInk (one_file_project\<lparr>mainInk := None\<rparr>) = None
   \<and> activeInkFile one_file_project = None
   \<and> evaluateAtLine story_parse story_compiler linear_story 2 None
        (Some (one_file_project\<lparr>mainInk := None\<rparr>)) = [Clear]
   \<and> scene_calls (evaluateAtCursorDebounced 2 (Some one_file_project) idle) = [Clear]
   \<and> pending (evaluateAtCursorDebounced 2 (Some one_file_project) idle) = []"
proof -
  have h1: "mainInk (one_file_project\<lparr>mainInk := None\<rparr>) = None" by simp
  have h2: "activeInkFile one_file_project = None" by (simp add: one_file_project_def)
  have h3: "activeInkFile (one_file_project\<lparr>mainInk := None\<rparr>) = None"
    by (simp add: one_file_project_def)
  note c = evaluation_cleared_without_project [where p = "one_file_project\<lparr>mainInk := None\<rparr>"
      and JSON_parse = story_parse and Compile = story_compiler and E = linear_story
      and cursorLine = 2 and cursorFilePath = None and proj = "Some one_file_project"
      and st = idle]
  have r1: "evaluateAtLine story_parse story_compiler linear_story 2 None
        (Some (one_file_project\<lparr>mainInk := None\<rparr>)) = [Clear]"
    using c h1 by blast
  have r2: "scene_calls (evaluateAtCursorDebounced 2 (Some one_file_project) idle) = [Clear]
     \<and> pending (evaluateAtCursorDebounced 2 (Some one_file_project) idle) = []"
    using c h2 by (simp add: idle_def)
  from h1 h2 r1 r2 show ?thesis by simp
qed

text \<open>
  Claim C8 as stated fails: \<^verbatim>\<open>evaluateAtLine\<close> does not look at the cursor's file. For
  a cursor in \<^verbatim>\<open>other.ink\<close>, which is not a file of the project, it compiles, runs the
  driver and displays the variables.
\<close>

theorem evaluateAtLine_ignores_cursor_file:
  "evaluateAtLine story_parse story_compiler linear_story 2 (Some ''other.ink'')
     (Some one_file_project) = [UpdateScene [(''x'', JSNumber 2)]]
   \<and> ''other.ink'' \<notin> set (map relativePath (files one_file_project))
   \<and> activeInkFile one_file_project = None"
  by (simp add: evaluateAtLine_def one_file_project_def main_file_def story_compiler_def
      runToCursor_def runToCursor_loop.simps MAX_STEPS_def linear_story_def
      snapshotVariablesState_def story_state_def state_json_def truthy_def story_parse_def
      member_variablesState_def is_object_def story_variables_def Object_keys_def
      read_variable_def obj_set_def coerceValue_def reached_def getCurrentLine_def at_line_def
      fileMatchesCursor_def or_else_def)

end
